theory Spec2Isabelle
  imports Complex_Main "HOL-Library.Multiset"
begin

section \<open>Python values and exceptions\<close>

text \<open>
  The generator is the Python script \<^verbatim>\<open>create_assets.py\<close>. A Python \<^verbatim>\<open>str\<close> is
  modelled by a \<^typ>\<open>string\<close> whose characters stand for the code points 0 to 255; an
  exception is a value of type \<open>error\<close>, and a computation that may raise returns
  \<open>error + 'a\<close> with \<open>Inl\<close> for the exception.
\<close>

datatype error =
    KeyError
  | ValueError
  | AttributeError
  | FileExistsError
  | NotADirectoryError
  | IsADirectoryError
  | FileNotFoundError

text \<open>
  A Python \<^verbatim>\<open>float\<close> is an IEEE double. A finite double is a rational number, and the
  operations on floats that the script uses (the literal, the default and \<^verbatim>\<open>:.3f\<close>
  formatting) are defined on that exact value, so a finite float is modelled by its exact
  value. The negative zero, the infinities and the NaN are separate constructors.
\<close>

datatype pyfloat = Finite rat | NegZero | PosInf | NegInf | NaN

datatype pyval = PStr string | PFloat pyfloat

section \<open>The built-in \<^verbatim>\<open>int(s, 16)\<close>\<close>

text \<open>
  \<^verbatim>\<open>int(s, 16)\<close> skips white space on both sides, takes one optional sign and an
  optional prefix \<^verbatim>\<open>0x\<close> (after which one underscore may follow), and then reads
  hexadecimal digits, where single underscores may stand between digits. Everything else
  raises \<^verbatim>\<open>ValueError\<close>. Among the code points below 256 the white space is the six
  ASCII characters and the code points 0x85 and 0xA0.
\<close>

definition is_space :: "char \<Rightarrow> bool" where
  "is_space c =
     (let n = (of_char c :: nat)
      in (9 \<le> n \<and> n \<le> 13) \<or> n = 32 \<or> n = 133 \<or> n = 160)"

definition hex_val :: "char \<Rightarrow> nat option" where
  "hex_val c =
     (let n = (of_char c :: nat)
      in if 48 \<le> n \<and> n \<le> 57 then Some (n - 48)
         else if 97 \<le> n \<and> n \<le> 102 then Some (n - 87)
         else if 65 \<le> n \<and> n \<le> 70 then Some (n - 55)
         else None)"

fun take_sign :: "string \<Rightarrow> bool \<times> string" where
  "take_sign [] = (False, [])"
| "take_sign (c # cs) =
     (if c = CHR ''+'' then (False, cs)
      else if c = CHR ''-'' then (True, cs)
      else (False, c # cs))"

fun skip_base_prefix :: "string \<Rightarrow> string" where
  "skip_base_prefix (a # b # cs) =
     (if a = CHR ''0'' \<and> (b = CHR ''x'' \<or> b = CHR ''X'')
      then (case cs of [] \<Rightarrow> [] | u # us \<Rightarrow> if u = CHR ''_'' then us else u # us)
      else a # b # cs)"
| "skip_base_prefix cs = cs"

text \<open>
  \<open>scan_digits acc prev cs\<close> reads digits and underscores from \<open>cs\<close>; \<open>prev\<close> tells
  whether the character before was an underscore. It returns the value read and the
  rest of the input, or \<open>None\<close> for two underscores in a row or an underscore at the end
  of the digits.
\<close>

fun scan_digits :: "nat \<Rightarrow> bool \<Rightarrow> string \<Rightarrow> (nat \<times> string) option" where
  "scan_digits acc prev [] = (if prev then None else Some (acc, []))"
| "scan_digits acc prev (c # cs) =
     (case hex_val c of
        Some d \<Rightarrow> scan_digits (16 * acc + d) False cs
      | None \<Rightarrow>
          if c = CHR ''_'' then (if prev then None else scan_digits acc True cs)
          else if prev then None
          else Some (acc, c # cs))"

text \<open>
  The digits after the sign: \<open>None\<close> stands for a syntax error. The input must not
  begin with an underscore, at least one character must be read as a digit, and only
  white space may follow the digits.
\<close>

definition parse_unsigned16 :: "string \<Rightarrow> nat option" where
  "parse_unsigned16 s2 =
     (let s3 = skip_base_prefix s2
      in if s3 \<noteq> [] \<and> hd s3 = CHR ''_'' then None
         else
           (case scan_digits 0 False s3 of
              None \<Rightarrow> None
            | Some (v, rest) \<Rightarrow>
                if length rest = length s3 then None
                else if dropWhile is_space rest \<noteq> [] then None
                else Some v))"

definition py_int16 :: "string \<Rightarrow> error + int" where
  "py_int16 s =
     (let (neg, s2) = take_sign (dropWhile is_space s)
      in case parse_unsigned16 s2 of
           None \<Rightarrow> Inl ValueError
         | Some v \<Rightarrow> Inr (if neg then - int v else int v))"

section \<open>The hex parser\<close>

text \<open>\<^verbatim>\<open>s[i:j]\<close> for \<open>0 \<le> i \<le> j\<close>, and \<^verbatim>\<open>s.lstrip('#')\<close>.\<close>

definition slice :: "string \<Rightarrow> nat \<Rightarrow> nat \<Rightarrow> string" where
  "slice s i j = take (j - i) (drop i s)"

definition lstrip_hash :: "string \<Rightarrow> string" where
  "lstrip_hash s = dropWhile (\<lambda>c. c = CHR ''#'') s"

definition hex_to_rgb :: "string \<Rightarrow> error + (int \<times> int \<times> int)" where
  "hex_to_rgb hex_color =
     (let h = lstrip_hash hex_color
      in case py_int16 (slice h 0 2) of
           Inl e \<Rightarrow> Inl e
         | Inr r \<Rightarrow>
             (case py_int16 (slice h 2 4) of
                Inl e \<Rightarrow> Inl e
              | Inr g \<Rightarrow>
                  (case py_int16 (slice h 4 6) of
                     Inl e \<Rightarrow> Inl e
                   | Inr b \<Rightarrow> Inr (r, g, b))))"

section \<open>Formatting\<close>

text \<open>The format \<^verbatim>\<open>02X\<close> of an integer: upper-case digits, the sign first, zeros up to width 2.\<close>

definition hex_digit_upper :: "nat \<Rightarrow> char" where
  "hex_digit_upper d = (if d < 10 then char_of (48 + d) else char_of (55 + d))"

fun hex_upper :: "nat \<Rightarrow> string" where
  "hex_upper n =
     (if n < 16 then [hex_digit_upper n]
      else hex_upper (n div 16) @ [hex_digit_upper (n mod 16)])"

declare hex_upper.simps [simp del]

definition zero_pad :: "nat \<Rightarrow> string \<Rightarrow> string" where
  "zero_pad w ds = replicate (w - length ds) (CHR ''0'') @ ds"

definition format_02X :: "int \<Rightarrow> string" where
  "format_02X n =
     (if n < 0 then CHR ''-'' # zero_pad 1 (hex_upper (nat (- n)))
      else zero_pad 2 (hex_upper (nat n)))"

text \<open>\<^verbatim>\<open>str(n)\<close> for an integer.\<close>

fun dec_digits :: "nat \<Rightarrow> string" where
  "dec_digits n =
     (if n < 10 then [char_of (48 + n)]
      else dec_digits (n div 10) @ [char_of (48 + n mod 10)])"

declare dec_digits.simps [simp del]

definition py_str_int :: "int \<Rightarrow> string" where
  "py_str_int i = (if i < 0 then CHR ''-'' # dec_digits (nat (- i)) else dec_digits (nat i))"

text \<open>
  The format \<^verbatim>\<open>.3f\<close> of a float gives the decimal numeral with three digits after the
  point that is nearest to the exact value of the float, the even one of two nearest. A
  string cannot be formatted with \<^verbatim>\<open>f\<close>: that raises \<^verbatim>\<open>ValueError\<close>.
\<close>

definition round_half_even :: "rat \<Rightarrow> int" where
  "round_half_even q =
     (let f = \<lfloor>q\<rfloor>; r = q - of_int f
      in if r < 1 / 2 then f
         else if 1 / 2 < r then f + 1
         else if even f then f else f + 1)"

definition format_3f_abs :: "rat \<Rightarrow> string" where
  "format_3f_abs q =
     (let k = nat (round_half_even (q * 1000))
      in dec_digits (k div 1000) @ ''.'' @
         [char_of (48 + k div 100 mod 10), char_of (48 + k div 10 mod 10),
          char_of (48 + k mod 10)])"

fun format_3f :: "pyfloat \<Rightarrow> string" where
  "format_3f (Finite q) = (if q < 0 then CHR ''-'' # format_3f_abs (- q) else format_3f_abs q)"
| "format_3f NegZero = ''-0.000''"
| "format_3f PosInf = ''inf''"
| "format_3f NegInf = ''-inf''"
| "format_3f NaN = ''nan''"

fun py_format_3f :: "pyval \<Rightarrow> error + string" where
  "py_format_3f (PFloat x) = Inr (format_3f x)"
| "py_format_3f (PStr s) = Inl ValueError"

section \<open>JSON documents and \<^verbatim>\<open>json.dump(obj, f, indent=2)\<close>\<close>

text \<open>
  A Python dictionary keeps its keys in insertion order, and the serialiser writes them in
  that order, so an object is a list of pairs.
\<close>

datatype json =
    JString string
  | JInt int
  | JArray "json list"
  | JObject "(string \<times> json) list"

definition hex_digit_lower :: "nat \<Rightarrow> char" where
  "hex_digit_lower d = (if d < 10 then char_of (48 + d) else char_of (87 + d))"

text \<open>String escaping with \<^verbatim>\<open>ensure_ascii\<close>, the default of \<^verbatim>\<open>json.dump\<close>.\<close>

definition encode_char :: "char \<Rightarrow> string" where
  "encode_char c =
     (let n = (of_char c :: nat)
      in if c = CHR 0x22 then [CHR 0x5C, CHR 0x22]
         else if c = CHR 0x5C then [CHR 0x5C, CHR 0x5C]
         else if n = 10 then [CHR 0x5C, CHR ''n'']
         else if n = 13 then [CHR 0x5C, CHR ''r'']
         else if n = 9 then [CHR 0x5C, CHR ''t'']
         else if n = 12 then [CHR 0x5C, CHR ''f'']
         else if n = 8 then [CHR 0x5C, CHR ''b'']
         else if n < 32 \<or> 126 < n
           then [CHR 0x5C, CHR ''u'', CHR ''0'', CHR ''0'',
                 hex_digit_lower (n div 16), hex_digit_lower (n mod 16)]
         else [c])"

definition encode_string :: "string \<Rightarrow> string" where
  "encode_string s = [CHR 0x22] @ concat (map encode_char s) @ [CHR 0x22]"

definition newline_indent :: "nat \<Rightarrow> string" where
  "newline_indent level = CHR 0x0A # replicate (2 * level) (CHR '' '')"

fun join_with :: "string \<Rightarrow> string list \<Rightarrow> string" where
  "join_with sep [] = []"
| "join_with sep [x] = x"
| "join_with sep (x # y # ys) = x @ sep @ join_with sep (y # ys)"

fun dumps :: "nat \<Rightarrow> json \<Rightarrow> string" where
  "dumps level (JString s) = encode_string s"
| "dumps level (JInt i) = py_str_int i"
| "dumps level (JArray xs) =
     (if xs = [] then ''[]''
      else ''['' @ newline_indent (Suc level) @
           join_with ('','' @ newline_indent (Suc level)) (map (dumps (Suc level)) xs) @
           newline_indent level @ '']'')"
| "dumps level (JObject kvs) =
     (if kvs = [] then ''{}''
      else ''{'' @ newline_indent (Suc level) @
           join_with ('','' @ newline_indent (Suc level))
             (map (\<lambda>kv. encode_string (fst kv) @ '': '' @ dumps (Suc level) (snd kv)) kvs) @
           newline_indent level @ ''}'')"

definition json_dump_indent2 :: "json \<Rightarrow> string" where
  "json_dump_indent2 obj = dumps 0 obj"

section \<open>The color table and the descriptor\<close>

type_synonym color_def = "string \<rightharpoonup> pyval"

text \<open>\<^verbatim>\<open>d[k]\<close> raises \<^verbatim>\<open>KeyError\<close> for a missing key; \<^verbatim>\<open>d.get(k, default)\<close> does not.\<close>

definition get_item :: "color_def \<Rightarrow> string \<Rightarrow> error + pyval" where
  "get_item d k = (case d k of None \<Rightarrow> Inl KeyError | Some v \<Rightarrow> Inr v)"

definition get_default :: "color_def \<Rightarrow> string \<Rightarrow> pyval \<Rightarrow> pyval" where
  "get_default d k dflt = (case d k of None \<Rightarrow> dflt | Some v \<Rightarrow> v)"

text \<open>
  \<^verbatim>\<open>hex_to_rgb\<close> applied to a value of the table: a float has no method
  \<^verbatim>\<open>lstrip\<close>, which raises \<^verbatim>\<open>AttributeError\<close>.
\<close>

fun call_hex_to_rgb :: "pyval \<Rightarrow> error + (int \<times> int \<times> int)" where
  "call_hex_to_rgb (PStr s) = hex_to_rgb s"
| "call_hex_to_rgb (PFloat x) = Inl AttributeError"

definition color_payload :: "string \<Rightarrow> int \<Rightarrow> int \<Rightarrow> int \<Rightarrow> json" where
  "color_payload alpha r g b =
     JObject
       [(''color-space'', JString ''srgb''),
        (''components'',
           JObject
             [(''alpha'', JString alpha),
              (''blue'', JString (''0x'' @ format_02X b)),
              (''green'', JString (''0x'' @ format_02X g)),
              (''red'', JString (''0x'' @ format_02X r))])]"

definition light_color :: "string \<Rightarrow> int \<Rightarrow> int \<Rightarrow> int \<Rightarrow> json" where
  "light_color alpha r g b =
     JObject [(''color'', color_payload alpha r g b), (''idiom'', JString ''universal'')]"

definition dark_color :: "string \<Rightarrow> int \<Rightarrow> int \<Rightarrow> int \<Rightarrow> json" where
  "dark_color alpha r g b =
     JObject
       [(''appearances'',
           JArray [JObject [(''appearance'', JString ''luminosity''), (''value'', JString ''dark'')]]),
        (''color'', color_payload alpha r g b),
        (''idiom'', JString ''universal'')]"

text \<open>
  The part of \<^verbatim>\<open>create_color_set\<close> between the directory creation and the file
  write: it builds the dictionary \<^verbatim>\<open>contents\<close> and touches nothing else. The
  steps that can raise are taken in the order of the source.
\<close>

definition build_contents :: "color_def \<Rightarrow> error + json" where
  "build_contents color_def =
     (case get_item color_def ''light'' of
        Inl e \<Rightarrow> Inl e
      | Inr light_hex \<Rightarrow>
     (case call_hex_to_rgb light_hex of
        Inl e \<Rightarrow> Inl e
      | Inr (r, g, b) \<Rightarrow>
     (case py_format_3f (get_default color_def ''light_alpha'' (PFloat (Finite 1))) of
        Inl e \<Rightarrow> Inl e
      | Inr alpha \<Rightarrow>
     (case get_item color_def ''dark'' of
        Inl e \<Rightarrow> Inl e
      | Inr dark_hex \<Rightarrow>
     (case call_hex_to_rgb dark_hex of
        Inl e \<Rightarrow> Inl e
      | Inr (r_d, g_d, b_d) \<Rightarrow>
     (case py_format_3f (get_default color_def ''dark_alpha'' (PFloat (Finite 1))) of
        Inl e \<Rightarrow> Inl e
      | Inr alpha_d \<Rightarrow>
          Inr (JObject
                 [(''colors'', JArray [light_color alpha r g b, dark_color alpha_d r_d g_d b_d]),
                  (''info'', JObject [(''author'', JString ''xcode''), (''version'', JInt 1)])])))))))"

text \<open>
  The module-level constants. The float literal \<^verbatim>\<open>0.06\<close> denotes the double nearest to
  6/100, which is the fraction below.
\<close>

definition assets_path :: string where
  "assets_path = ''/Users/guo/Documents/iOS/KuaiJi/KuaiJi_IOSApp/KuaiJi/Assets.xcassets''"

definition float_0_06 :: pyfloat where
  "float_0_06 = Finite (1080863910568919 / 18014398509481984)"

definition colors :: "(string \<times> color_def) list" where
  "colors =
     [(''BrandPrimary'', [''light'' \<mapsto> PStr ''#7A4A2A'', ''dark'' \<mapsto> PStr ''#7A4A2A'']),
      (''Background'', [''light'' \<mapsto> PStr ''#F6F2EE'', ''dark'' \<mapsto> PStr ''#0E0E11'']),
      (''Surface'', [''light'' \<mapsto> PStr ''#FFFFFF'', ''dark'' \<mapsto> PStr ''#18181B'']),
      (''SurfaceAlt'', [''light'' \<mapsto> PStr ''#FBF8F4'', ''dark'' \<mapsto> PStr ''#FBF8F4'']),
      (''TextPrimary'', [''light'' \<mapsto> PStr ''#3A2B22'', ''dark'' \<mapsto> PStr ''#C9C7C4'']),
      (''SecondaryText'', [''light'' \<mapsto> PStr ''#9C8F86'', ''dark'' \<mapsto> PStr ''#C9C7C4'']),
      (''LedgerContentText'', [''light'' \<mapsto> PStr ''#3B291E'', ''dark'' \<mapsto> PStr ''#C9C7C4'']),
      (''Success'', [''light'' \<mapsto> PStr ''#3BAF6A'', ''dark'' \<mapsto> PStr ''#3BAF6A'']),
      (''Danger'', [''light'' \<mapsto> PStr ''#E56A5E'', ''dark'' \<mapsto> PStr ''#E56A5E'']),
      (''Info'', [''light'' \<mapsto> PStr ''#7A93E0'', ''dark'' \<mapsto> PStr ''#7A93E0'']),
      (''Warning'', [''light'' \<mapsto> PStr ''#FF9500'', ''dark'' \<mapsto> PStr ''#FF9500'']),
      (''ToggleOn'', [''light'' \<mapsto> PStr ''#F5973C'', ''dark'' \<mapsto> PStr ''#F5973C'']),
      (''ToggleOff'', [''light'' \<mapsto> PStr ''#E1D9D3'', ''dark'' \<mapsto> PStr ''#E1D9D3'']),
      (''Selection'', [''light'' \<mapsto> PStr ''#007AFF'', ''dark'' \<mapsto> PStr ''#0A84FF'']),
      (''CardShadow'',
         [''light'' \<mapsto> PStr ''#000000'', ''light_alpha'' \<mapsto> PFloat float_0_06,
          ''dark'' \<mapsto> PStr ''#FFFFFF'', ''dark_alpha'' \<mapsto> PFloat float_0_06])]"

section \<open>The file system\<close>

text \<open>
  A path is the list of its components below the root directory. The file system holds
  the set of its directories (the root is always one) and the contents of its regular
  files. Permissions, links, the components \<^verbatim>\<open>.\<close> and \<^verbatim>\<open>..\<close> and a full disk are
  not modelled: an operation fails only where an entry of the wrong kind is in the way.
\<close>

type_synonym path = "string list"

record filesystem =
  dirs :: "path set"
  files :: "path \<rightharpoonup> string"

fun split_slash :: "string \<Rightarrow> string list" where
  "split_slash [] = [[]]"
| "split_slash (c # cs) =
     (if c = CHR ''/'' then [] # split_slash cs
      else (case split_slash cs of [] \<Rightarrow> [[c]] | w # ws \<Rightarrow> (c # w) # ws))"

definition components :: "string \<Rightarrow> path" where
  "components name = filter (\<lambda>w. w \<noteq> []) (split_slash name)"

text \<open>\<^verbatim>\<open>os.path.join(a, b)\<close> on POSIX.\<close>

definition os_path_join :: "string \<Rightarrow> string \<Rightarrow> string" where
  "os_path_join a b =
     (if b \<noteq> [] \<and> hd b = CHR ''/'' then b
      else if a = [] \<or> last a = CHR ''/'' then a @ b
      else a @ ''/'' @ b)"

definition ancestors :: "path \<Rightarrow> path list" where
  "ancestors p = map (\<lambda>n. take n p) [1..<Suc (length p)]"

definition is_dir :: "filesystem \<Rightarrow> path \<Rightarrow> bool" where
  "is_dir fsys p = (p = [] \<or> p \<in> dirs fsys)"

definition is_file :: "filesystem \<Rightarrow> path \<Rightarrow> bool" where
  "is_file fsys p = (files fsys p \<noteq> None)"

text \<open>
  \<^verbatim>\<open>os.makedirs(name, exist_ok=True)\<close> creates the directory and every missing
  directory above it. It raises when a regular file stands at the path or above it.
\<close>

definition makedirs_exist_ok :: "string \<Rightarrow> filesystem \<Rightarrow> error + filesystem" where
  "makedirs_exist_ok name fsys =
     (let p = components name
      in if list_ex (is_file fsys) (butlast (ancestors p)) then Inl NotADirectoryError
         else if is_file fsys p then Inl FileExistsError
         else Inr (fsys\<lparr>dirs := dirs fsys \<union> set (ancestors p)\<rparr>))"

text \<open>
  \<^verbatim>\<open>with open(name, "w") as f: f.write(data)\<close>: the file is created or replaced.
\<close>

definition write_file :: "string \<Rightarrow> string \<Rightarrow> filesystem \<Rightarrow> error + filesystem" where
  "write_file name data fsys =
     (let p = components name
      in if is_dir fsys p then Inl IsADirectoryError
         else if list_ex (is_file fsys) (butlast (ancestors p)) then Inl NotADirectoryError
         else if \<not> is_dir fsys (butlast p) then Inl FileNotFoundError
         else Inr (fsys\<lparr>files := (files fsys)(p \<mapsto> data)\<rparr>))"

section \<open>The generator\<close>

text \<open>
  The state of a run: the table \<^verbatim>\<open>colors\<close> in memory, the file system and the lines
  printed so far. A step returns the exception it raised, if any, together with the
  state it left behind.
\<close>

record state =
  table :: "(string \<times> color_def) list"
  disk :: filesystem
  console :: "string list"

definition create_color_set :: "string \<Rightarrow> color_def \<Rightarrow> state \<Rightarrow> (error + unit) \<times> state" where
  "create_color_set name color_def s =
     (let folder_path = os_path_join assets_path (name @ ''.colorset'')
      in case makedirs_exist_ok folder_path (disk s) of
           Inl e \<Rightarrow> (Inl e, s)
         | Inr d1 \<Rightarrow>
             (let s1 = s\<lparr>disk := d1\<rparr>
              in case build_contents color_def of
                   Inl e \<Rightarrow> (Inl e, s1)
                 | Inr contents \<Rightarrow>
                     (case write_file (os_path_join folder_path ''Contents.json'')
                             (json_dump_indent2 contents) d1 of
                        Inl e \<Rightarrow> (Inl e, s1)
                      | Inr d2 \<Rightarrow> (Inr (), s1\<lparr>disk := d2\<rparr>))))"

text \<open>\<^verbatim>\<open>print(line)\<close>.\<close>

definition print_line :: "string \<Rightarrow> state \<Rightarrow> state" where
  "print_line line s = s\<lparr>console := console s @ [line]\<rparr>"

text \<open>
  The loop at the end of the module, over the items of a dictionary in their order. An
  exception ends the run.
\<close>

fun run_items :: "(string \<times> color_def) list \<Rightarrow> state \<Rightarrow> (error + unit) \<times> state" where
  "run_items [] s = (Inr (), s)"
| "run_items ((name, definition) # rest) s =
     (case create_color_set name definition s of
        (Inl e, s1) \<Rightarrow> (Inl e, s1)
      | (Inr u, s1) \<Rightarrow> run_items rest (print_line (''Created '' @ name @ ''.colorset'') s1))"

definition generate :: "state \<Rightarrow> (error + unit) \<times> state" where
  "generate s = run_items (table s) s"

section \<open>Notions of the specification\<close>

text \<open>
  The specification speaks of hexadecimal digits, of upper-case normalisation and of
  well-formed color strings. These notions are written down here as the specification
  words them; they are not part of the script.
\<close>

definition is_hex_digit :: "char \<Rightarrow> bool" where
  "is_hex_digit c = (c \<in> set ''0123456789abcdefABCDEF'')"

definition ascii_upper :: "char \<Rightarrow> char" where
  "ascii_upper c =
     (let n = (of_char c :: nat) in if 97 \<le> n \<and> n \<le> 122 then char_of (n - 32) else c)"

text \<open>Exactly six hexadecimal digits after one optional leading \<^verbatim>\<open>#\<close>.\<close>

definition well_formed_hex :: "string \<Rightarrow> bool" where
  "well_formed_hex s =
     (let t = (case s of [] \<Rightarrow> [] | c # cs \<Rightarrow> if c = CHR ''#'' then cs else c # cs)
      in length t = 6 \<and> list_all is_hex_digit t)"

text \<open>Reading a descriptor: the member of an object, the variant list, a component.\<close>

fun member :: "json \<Rightarrow> string \<Rightarrow> json option" where
  "member (JObject kvs) k = map_of kvs k"
| "member (JString v) k = None"
| "member (JInt v) k = None"
| "member (JArray v) k = None"

definition variants :: "json \<Rightarrow> json list" where
  "variants contents = (case member contents ''colors'' of Some (JArray vs) \<Rightarrow> vs | _ \<Rightarrow> [])"

definition component :: "json \<Rightarrow> string \<Rightarrow> json option" where
  "component v k =
     (case member v ''color'' of
        None \<Rightarrow> None
      | Some c \<Rightarrow> (case member c ''components'' of None \<Rightarrow> None | Some cs \<Rightarrow> member cs k))"

text \<open>The directory of a color and its descriptor file, as paths.\<close>

definition folder_of :: "string \<Rightarrow> path" where
  "folder_of name = components (os_path_join assets_path (name @ ''.colorset''))"

definition contents_file_of :: "string \<Rightarrow> path" where
  "contents_file_of name =
     components (os_path_join (os_path_join assets_path (name @ ''.colorset'')) ''Contents.json'')"

text \<open>
  A channel string is \<^verbatim>\<open>0x\<close> followed by exactly two upper-case hexadecimal digits.
  A variant is well tagged when its idiom is \<^verbatim>\<open>universal\<close>, its color space is
  \<^verbatim>\<open>srgb\<close> and its three channels are channel strings.
\<close>

definition is_upper_hex_digit :: "char \<Rightarrow> bool" where
  "is_upper_hex_digit c = (c \<in> set ''0123456789ABCDEF'')"

definition is_channel_string :: "string \<Rightarrow> bool" where
  "is_channel_string s =
     (case s of
        [z, x, h1, h2] \<Rightarrow>
          z = CHR ''0'' \<and> x = CHR ''x'' \<and> is_upper_hex_digit h1 \<and> is_upper_hex_digit h2
      | _ \<Rightarrow> False)"

definition color_space :: "json \<Rightarrow> json option" where
  "color_space v = (case member v ''color'' of None \<Rightarrow> None | Some c \<Rightarrow> member c ''color-space'')"

definition is_channel :: "json \<Rightarrow> string \<Rightarrow> bool" where
  "is_channel v k = (case component v k of Some (JString s) \<Rightarrow> is_channel_string s | _ \<Rightarrow> False)"

definition well_tagged :: "json \<Rightarrow> bool" where
  "well_tagged v =
     (member v ''idiom'' = Some (JString ''universal'')
      \<and> color_space v = Some (JString ''srgb'')
      \<and> is_channel v ''red'' \<and> is_channel v ''green'' \<and> is_channel v ''blue'')"

text \<open>
  A color definition as the specification describes it: both hex strings are well formed,
  and an alpha, where given, is a number.
\<close>

definition hex_field :: "color_def \<Rightarrow> string \<Rightarrow> bool" where
  "hex_field d k = (case d k of Some (PStr h) \<Rightarrow> well_formed_hex h | _ \<Rightarrow> False)"

definition alpha_field :: "color_def \<Rightarrow> string \<Rightarrow> bool" where
  "alpha_field d k = (case d k of Some (PStr h) \<Rightarrow> False | _ \<Rightarrow> True)"

definition valid_color_def :: "color_def \<Rightarrow> bool" where
  "valid_color_def d =
     (hex_field d ''light'' \<and> hex_field d ''dark''
      \<and> alpha_field d ''light_alpha'' \<and> alpha_field d ''dark_alpha'')"

text \<open>
  Reading an alpha string back as the decimal number it denotes, and the digits after
  its decimal point. The value of a float is its exact value; the infinities and the NaN
  have none.
\<close>

definition is_dec_digit :: "char \<Rightarrow> bool" where
  "is_dec_digit c = (let n = (of_char c :: nat) in 48 \<le> n \<and> n \<le> 57)"

definition digit_value :: "char \<Rightarrow> nat" where
  "digit_value c = of_char c - 48"

definition digits_value :: "string \<Rightarrow> nat" where
  "digits_value ds = foldl (\<lambda>acc c. 10 * acc + digit_value c) 0 ds"

definition fraction_digits :: "string \<Rightarrow> string" where
  "fraction_digits s = drop 1 (dropWhile (\<lambda>c. c \<noteq> CHR ''.'') s)"

definition integer_digits :: "string \<Rightarrow> string" where
  "integer_digits s = takeWhile (\<lambda>c. c \<noteq> CHR ''.'') s"

definition parse_unsigned_decimal :: "string \<Rightarrow> rat option" where
  "parse_unsigned_decimal t =
     (let ip = integer_digits t; fp = fraction_digits t
      in if ip \<noteq> [] \<and> list_all is_dec_digit ip \<and> fp \<noteq> [] \<and> list_all is_dec_digit fp
           \<and> t = ip @ ''.'' @ fp
         then Some (of_nat (digits_value ip) + of_nat (digits_value fp) / 10 ^ length fp)
         else None)"

definition parse_decimal :: "string \<Rightarrow> rat option" where
  "parse_decimal s =
     (case s of
        [] \<Rightarrow> None
      | c # t \<Rightarrow>
          if c = CHR ''-'' then map_option uminus (parse_unsigned_decimal t)
          else parse_unsigned_decimal s)"

fun float_value :: "pyfloat \<Rightarrow> rat option" where
  "float_value (Finite q) = Some q"
| "float_value NegZero = Some 0"
| "float_value PosInf = None"
| "float_value NegInf = None"
| "float_value NaN = None"

definition in_unit_interval :: "pyfloat \<Rightarrow> bool" where
  "in_unit_interval a = (case float_value a of None \<Rightarrow> False | Some x \<Rightarrow> 0 \<le> x \<and> x \<le> 1)"

text \<open>The number of thousandths that \<^verbatim>\<open>.3f\<close> prints for a magnitude.\<close>

definition thousandths :: "rat \<Rightarrow> nat" where
  "thousandths q = nat (round_half_even (q * 1000))"

text \<open>
  What can stand in the way of an entry: a regular file at its directory or above it,
  or a directory at the place of its descriptor file. The last two definitions give the
  disk after the directory of an entry was made, and after its descriptor was written.
\<close>

definition file_in_the_way :: "filesystem \<Rightarrow> string \<Rightarrow> bool" where
  "file_in_the_way fsys name = list_ex (is_file fsys) (ancestors (folder_of name))"

definition dir_in_the_way :: "filesystem \<Rightarrow> string \<Rightarrow> bool" where
  "dir_in_the_way fsys name = (contents_file_of name \<in> dirs fsys)"

definition blocked :: "filesystem \<Rightarrow> string \<Rightarrow> bool" where
  "blocked fsys name = (file_in_the_way fsys name \<or> dir_in_the_way fsys name)"

definition with_dirs :: "string \<Rightarrow> filesystem \<Rightarrow> filesystem" where
  "with_dirs name fsys = fsys\<lparr>dirs := dirs fsys \<union> set (ancestors (folder_of name))\<rparr>"

definition emitted :: "string \<Rightarrow> string \<Rightarrow> filesystem \<Rightarrow> filesystem" where
  "emitted name data fsys =
     (with_dirs name fsys)\<lparr>files := (files fsys)(contents_file_of name \<mapsto> data)\<rparr>"

text \<open>The bytes of the descriptor of a color definition, and the line printed for a name.\<close>

definition payload :: "color_def \<Rightarrow> string" where
  "payload d = (case build_contents d of Inl e \<Rightarrow> [] | Inr contents \<Rightarrow> json_dump_indent2 contents)"

definition confirmation :: "string \<Rightarrow> string" where
  "confirmation name = ''Created '' @ name @ ''.colorset''"

text \<open>
  A table as the specification describes it: the names are distinct (they are the keys of
  a dictionary) and contain no slash, and every definition is valid.
\<close>

definition simple_name :: "string \<Rightarrow> bool" where
  "simple_name name = (CHR ''/'' \<notin> set name)"

definition well_formed_table :: "(string \<times> color_def) list \<Rightarrow> bool" where
  "well_formed_table items =
     (distinct (map fst items)
      \<and> list_all (\<lambda>item. simple_name (fst item) \<and> valid_color_def (snd item)) items)"

text \<open>
  States used as examples: an empty disk; a disk where the directory of the first color
  exists and holds a file of its own; a disk where a regular file stands at the place of
  the directory of the second color. The last definition is the table with its first two
  entries exchanged.
\<close>

definition fresh_state :: state where
  "fresh_state = \<lparr>table = colors, disk = \<lparr>dirs = {}, files = Map.empty\<rparr>, console = []\<rparr>"

definition crowded_state :: state where
  "crowded_state =
     \<lparr>table = colors,
      disk = \<lparr>dirs = set (ancestors (folder_of ''BrandPrimary'')),
               files = [folder_of ''BrandPrimary'' @ [''old.txt''] \<mapsto> ''old'']\<rparr>,
      console = []\<rparr>"



text \<open>
  The three channels of a variant, and the three channel strings that a hex color string
  \<^verbatim>\<open>#RRGGBB\<close> stands for: \<^verbatim>\<open>0x\<close> followed by the digits \<^verbatim>\<open>RR\<close>, by \<^verbatim>\<open>GG\<close> and by
  \<^verbatim>\<open>BB\<close>, in upper case.
\<close>

definition channels :: "json \<Rightarrow> json option list" where
  "channels v = [component v ''red'', component v ''green'', component v ''blue'']"

definition hex_groups :: "string \<Rightarrow> json option list" where
  "hex_groups h =
     map (\<lambda>i. Some (JString (''0x'' @ map ascii_upper (slice (lstrip_hash h) i (i + 2))))) [0, 2, 4]"

text \<open>
  The alpha value of a variant: the number under its key, and 1.0 when the key is absent.
  The second definition lists the alpha components of the variants of the descriptor of a
  color definition. The third is a color definition whose light alpha is 0.0625.
\<close>

definition alpha_given :: "color_def \<Rightarrow> string \<Rightarrow> pyfloat \<Rightarrow> bool" where
  "alpha_given d k a = (case d k of None \<Rightarrow> a = Finite 1 | Some v \<Rightarrow> v = PFloat a)"

definition variant_alphas :: "color_def \<Rightarrow> json option list" where
  "variant_alphas d =
     (case build_contents d of
        Inl e \<Rightarrow> []
      | Inr contents \<Rightarrow> map (\<lambda>v. component v ''alpha'') (variants contents))"

definition faint_shadow :: color_def where
  "faint_shadow =
     [''light'' \<mapsto> PStr ''#000000'', ''light_alpha'' \<mapsto> PFloat (Finite (1 / 16)),
      ''dark'' \<mapsto> PStr ''#FFFFFF'']"

text \<open>
  Reading a numeral back as a binary float, as \<^verbatim>\<open>float(s)\<close> does: the result is the
  double nearest to the decimal number that the numeral denotes, the one with the even
  significand of two nearest. A double of the normal range has a significand of 53 bits,
  so in the binade of \<open>2 ^ e\<close> the doubles are the multiples of \<open>2 ^ (e - 52)\<close>. The
  numerals read are those that \<^verbatim>\<open>.3f\<close> prints (an optional minus sign, digits, a
  point, digits) with a value that is zero or in the normal range; the result is
  \<open>None\<close> for every other string.
\<close>

fun bit_length :: "nat \<Rightarrow> nat" where
  "bit_length n = (if n = 0 then 0 else Suc (bit_length (n div 2)))"

declare bit_length.simps [simp del]

definition pow2 :: "int \<Rightarrow> rat" where
  "pow2 e = (if 0 \<le> e then 2 ^ nat e else 1 / 2 ^ nat (- e))"

definition binade :: "rat \<Rightarrow> int" where
  "binade q =
     (let (n, d) = quotient_of q;
          e = int (bit_length (nat n)) - int (bit_length (nat d))
      in if pow2 e \<le> q then e else e - 1)"

definition nearest_double :: "rat \<Rightarrow> rat" where
  "nearest_double q =
     (if q = 0 then 0
      else let m = \<bar>q\<bar>; ulp = pow2 (binade m - 52)
           in sgn q * of_int (round_half_even (m / ulp)) * ulp)"

definition py_float :: "string \<Rightarrow> pyfloat option" where
  "py_float s =
     (case parse_decimal s of
        None \<Rightarrow> None
      | Some v \<Rightarrow>
          if v = 0 then Some (if take 1 s = ''-'' then NegZero else Finite 0)
          else if pow2 (- 1022) \<le> \<bar>v\<bar> \<and> \<bar>v\<bar> \<le> pow2 1023 then Some (Finite (nearest_double v))
          else None)"

(* DEFINITIONS END *)

section \<open>Properties of the hex parser\<close>

lemma hex_digit_not_special:
  assumes "is_hex_digit c"
  shows "\<not> is_space c" and "c \<noteq> CHR ''+''" and "c \<noteq> CHR ''-''" and "c \<noteq> CHR ''_''"
    and "c \<noteq> CHR ''x''" and "c \<noteq> CHR ''X''" and "c \<noteq> CHR ''#''"
  using assms by (auto simp: is_hex_digit_def is_space_def)

lemma hex_val_bound: "hex_val c = Some d \<Longrightarrow> d < 16"
  by (auto simp: hex_val_def Let_def split: if_splits)

lemma hex_digit_val:
  assumes "is_hex_digit c"
  shows "\<exists>d. hex_val c = Some d"
  using assms by (auto simp: is_hex_digit_def hex_val_def)

lemma hex_digit_upper_val:
  assumes "hex_val c = Some d"
  shows "hex_digit_upper d = ascii_upper c"
proof -
  define n where "n = (of_char c :: nat)"
  have c: "char_of n = c" by (simp add: n_def)
  from assms consider "48 \<le> n" "n \<le> 57" "d = n - 48" | "97 \<le> n" "n \<le> 102" "d = n - 87"
    | "65 \<le> n" "n \<le> 70" "d = n - 55"
    by (auto simp: hex_val_def Let_def n_def split: if_splits)
  then show ?thesis
  proof cases
    case 1
    then have "d < 10" "48 + d = n" "\<not> (97 \<le> n \<and> n \<le> 122)" by simp_all
    then show ?thesis using c
      by (simp add: hex_digit_upper_def ascii_upper_def Let_def n_def[symmetric])
  next
    case 2
    then have "\<not> d < 10" "55 + d = n - 32" "97 \<le> n \<and> n \<le> 122" by simp_all
    then show ?thesis using c
      by (simp add: hex_digit_upper_def ascii_upper_def Let_def n_def[symmetric])
  next
    case 3
    then have "\<not> d < 10" "55 + d = n" "\<not> (97 \<le> n \<and> n \<le> 122)" by simp_all
    then show ?thesis using c
      by (auto simp: hex_digit_upper_def ascii_upper_def Let_def n_def[symmetric])
  qed
qed

lemma hex_val_is_hex_digit:
  assumes "hex_val c = Some d"
  shows "is_hex_digit c"
proof -
  define n where "n = (of_char c :: nat)"
  have c: "c = char_of n" by (simp add: n_def)
  from assms have "(48 \<le> n \<and> n \<le> 57) \<or> (97 \<le> n \<and> n \<le> 102) \<or> (65 \<le> n \<and> n \<le> 70)"
    by (auto simp: hex_val_def Let_def n_def split: if_splits)
  then have "n = 48 \<or> n = 49 \<or> n = 50 \<or> n = 51 \<or> n = 52 \<or> n = 53 \<or> n = 54 \<or> n = 55
      \<or> n = 56 \<or> n = 57 \<or> n = 97 \<or> n = 98 \<or> n = 99 \<or> n = 100 \<or> n = 101 \<or> n = 102
      \<or> n = 65 \<or> n = 66 \<or> n = 67 \<or> n = 68 \<or> n = 69 \<or> n = 70"
    by presburger
  then have "of_char c \<in> (of_char :: char \<Rightarrow> nat) ` set ''0123456789abcdefABCDEF''"
    unfolding n_def by simp
  then show ?thesis unfolding is_hex_digit_def
    by (simp only: inj_image_mem_iff[OF inj_of_char])
qed

lemma py_int16_empty: "py_int16 [] = Inl ValueError"
  by (simp add: py_int16_def parse_unsigned16_def)

lemma py_int16_hex_pair:
  assumes "is_hex_digit a" "is_hex_digit b" "hex_val a = Some x" "hex_val b = Some y"
  shows "py_int16 [a, b] = Inr (int (16 * x + y))"
  using assms hex_digit_not_special[of a] hex_digit_not_special[of b]
  by (simp add: py_int16_def parse_unsigned16_def)

lemma char_of_eq: "char_of (n::nat) = c \<longleftrightarrow> n mod 256 = of_char c"
  by (simp add: char_of_eq_iff take_bit_eq_mod)

lemma char_of_48: "char_of (48::nat) = CHR ''0''"
  by (simp add: char_of_eq)

lemma ascii_upper_hex:
  "ascii_upper CHR ''a'' = CHR ''A''" "ascii_upper CHR ''b'' = CHR ''B''"
  "ascii_upper CHR ''c'' = CHR ''C''" "ascii_upper CHR ''d'' = CHR ''D''"
  "ascii_upper CHR ''e'' = CHR ''E''" "ascii_upper CHR ''f'' = CHR ''F''"
  "ascii_upper CHR ''A'' = CHR ''A''" "ascii_upper CHR ''B'' = CHR ''B''"
  "ascii_upper CHR ''C'' = CHR ''C''" "ascii_upper CHR ''D'' = CHR ''D''"
  "ascii_upper CHR ''E'' = CHR ''E''" "ascii_upper CHR ''F'' = CHR ''F''"
  "ascii_upper CHR ''0'' = CHR ''0''" "ascii_upper CHR ''1'' = CHR ''1''"
  "ascii_upper CHR ''2'' = CHR ''2''" "ascii_upper CHR ''3'' = CHR ''3''"
  "ascii_upper CHR ''4'' = CHR ''4''" "ascii_upper CHR ''5'' = CHR ''5''"
  "ascii_upper CHR ''6'' = CHR ''6''" "ascii_upper CHR ''7'' = CHR ''7''"
  "ascii_upper CHR ''8'' = CHR ''8''" "ascii_upper CHR ''9'' = CHR ''9''"
  by (simp_all add: ascii_upper_def char_of_eq)

lemma format_02X_nat: "format_02X (int n) = zero_pad 2 (hex_upper n)"
  by (simp add: format_02X_def)

lemma format_02X_byte:
  assumes "x < 16" "y < 16"
  shows "format_02X (int (16 * x + y)) = [hex_digit_upper x, hex_digit_upper y]"
proof (cases "x = 0")
  case True
  have "hex_upper y = [hex_digit_upper y]"
    using assms by (simp add: hex_upper.simps[of y])
  then show ?thesis using True
    by (simp add: format_02X_nat zero_pad_def hex_digit_upper_def[of 0] char_of_48)
next
  case False
  then have "\<not> 16 * x + y < 16" "(16 * x + y) div 16 = x" "(16 * x + y) mod 16 = y"
    using assms by simp_all
  then have "hex_upper (16 * x + y) = [hex_digit_upper x, hex_digit_upper y]"
    using assms by (simp add: hex_upper.simps[of "16 * x + y"] hex_upper.simps[of x])
  then show ?thesis
    by (simp only: format_02X_nat zero_pad_def) simp
qed


lemma channel_roundtrip:
  assumes "is_hex_digit a" "is_hex_digit b"
  shows "\<exists>v. py_int16 [a, b] = Inr v \<and> format_02X v = [ascii_upper a, ascii_upper b]"
proof -
  from assms obtain x y where xy: "hex_val a = Some x" "hex_val b = Some y"
    using hex_digit_val by blast
  have "py_int16 [a, b] = Inr (int (16 * x + y))"
    using assms xy by (rule py_int16_hex_pair)
  moreover have "format_02X (int (16 * x + y)) = [ascii_upper a, ascii_upper b]"
    using xy by (simp only: format_02X_byte[OF hex_val_bound hex_val_bound] hex_digit_upper_val)
  ultimately show ?thesis by blast
qed

lemma lstrip_hash_hex: "is_hex_digit a \<Longrightarrow> lstrip_hash (a # cs) = a # cs"
  using hex_digit_not_special(7)[of a] by (simp add: lstrip_hash_def)

lemma lstrip_hash_Cons_hash: "lstrip_hash (CHR ''#'' # cs) = lstrip_hash cs"
  by (simp add: lstrip_hash_def)

lemma hex_to_rgb_six:
  assumes "is_hex_digit a" "is_hex_digit b" "is_hex_digit c" "is_hex_digit d" "is_hex_digit e"
    "is_hex_digit f"
  shows "\<exists>r g bl. hex_to_rgb [a, b, c, d, e, f] = Inr (r, g, bl)
     \<and> format_02X r = [ascii_upper a, ascii_upper b]
     \<and> format_02X g = [ascii_upper c, ascii_upper d]
     \<and> format_02X bl = [ascii_upper e, ascii_upper f]"
proof -
  obtain r where r: "py_int16 [a, b] = Inr r" "format_02X r = [ascii_upper a, ascii_upper b]"
    using channel_roundtrip[OF assms(1,2)] by blast
  obtain g where g: "py_int16 [c, d] = Inr g" "format_02X g = [ascii_upper c, ascii_upper d]"
    using channel_roundtrip[OF assms(3,4)] by blast
  obtain bl where bl: "py_int16 [e, f] = Inr bl" "format_02X bl = [ascii_upper e, ascii_upper f]"
    using channel_roundtrip[OF assms(5,6)] by blast
  have "hex_to_rgb [a, b, c, d, e, f] = Inr (r, g, bl)"
    using r(1) g(1) bl(1) by (simp add: hex_to_rgb_def lstrip_hash_hex[OF assms(1)] slice_def)
  then show ?thesis using r(2) g(2) bl(2) by blast
qed

lemma length_six:
  assumes "length s = 6"
  obtains a b c d e f where "s = [a, b, c, d, e, f]"
  using assms by (auto simp: eval_nat_numeral length_Suc_conv)

lemma dropWhile_take_id:
  assumes "xs = [] \<or> \<not> P (hd xs)"
  shows "dropWhile P (take n xs) = take n xs"
  using assms by (cases xs; cases n) simp_all

lemma lstrip_hash_idem: "lstrip_hash (take n (lstrip_hash s)) = take n (lstrip_hash s)"
  unfolding lstrip_hash_def
proof (rule dropWhile_take_id)
  show "dropWhile (\<lambda>c. c = CHR ''#'') s = [] \<or> \<not> hd (dropWhile (\<lambda>c. c = CHR ''#'') s) = CHR ''#''"
    using hd_dropWhile[of "\<lambda>c. c = CHR ''#''" s] by blast
qed

lemma slice_take6:
  "slice (take 6 h) 0 2 = slice h 0 2" "slice (take 6 h) 2 4 = slice h 2 4"
  "slice (take 6 h) 4 6 = slice h 4 6"
  by (simp_all add: slice_def drop_take)

lemma hex_to_rgb_reads_six: "hex_to_rgb s = hex_to_rgb (take 6 (lstrip_hash s))"
  unfolding hex_to_rgb_def[of s] hex_to_rgb_def[of "take 6 (lstrip_hash s)"] Let_def
    lstrip_hash_idem slice_take6 ..

lemma py_int16_error: "py_int16 t = Inl e \<Longrightarrow> e = ValueError"
  by (auto simp: py_int16_def Let_def split: prod.splits option.splits)

lemma hex_to_rgb_error: "hex_to_rgb s = Inl e \<Longrightarrow> e = ValueError"
  by (auto simp: hex_to_rgb_def Let_def split: sum.splits dest: py_int16_error)

lemma hex_val_not_special:
  assumes "hex_val c = Some d"
  shows "\<not> is_space c" and "c \<noteq> CHR ''+''" and "c \<noteq> CHR ''-''" and "c \<noteq> CHR ''_''"
    and "c \<noteq> CHR ''x''" and "c \<noteq> CHR ''X''" and "c \<noteq> CHR ''#''"
  using hex_digit_not_special[OF hex_val_is_hex_digit[OF assms]] by blast+

lemma hex_val_special:
  "hex_val CHR ''_'' = None" "hex_val CHR ''x'' = None" "hex_val CHR ''X'' = None"
  "hex_val CHR ''+'' = None" "hex_val CHR ''-'' = None" "hex_val CHR ''0'' = Some 0"
  by (simp_all add: hex_val_def)

lemma space_not_special:
  assumes "is_space c"
  shows "hex_val c = None" and "c \<noteq> CHR ''+''" and "c \<noteq> CHR ''-''" and "c \<noteq> CHR ''_''"
    and "c \<noteq> CHR ''x''" and "c \<noteq> CHR ''X''" and "c \<noteq> CHR ''0''"
proof -
  show "hex_val c = None"
    using assms hex_val_not_special(1)[of c] by (cases "hex_val c") auto
  show "c \<noteq> CHR ''+''" "c \<noteq> CHR ''-''" "c \<noteq> CHR ''_''" "c \<noteq> CHR ''x''" "c \<noteq> CHR ''X''"
    "c \<noteq> CHR ''0''"
    using assms by (auto simp: is_space_def)
qed

lemma parse_unsigned16_single: "parse_unsigned16 [c] = hex_val c"
proof (cases "hex_val c")
  case None
  then show ?thesis by (simp add: parse_unsigned16_def Let_def)
next
  case (Some d)
  then show ?thesis using hex_val_not_special[OF Some] by (simp add: parse_unsigned16_def Let_def)
qed

lemma parse_unsigned16_pair:
  "parse_unsigned16 [a, b] =
     (case hex_val a of
        None \<Rightarrow> None
      | Some x \<Rightarrow>
          (case hex_val b of
             Some y \<Rightarrow> Some (16 * x + y)
           | None \<Rightarrow> if is_space b then Some x else None))"
proof (cases "a = CHR ''0'' \<and> (b = CHR ''x'' \<or> b = CHR ''X'')")
  case True
  then have "skip_base_prefix [a, b] = []" by auto
  moreover have "hex_val a = Some 0" "hex_val b = None" "\<not> is_space b"
    using True by (auto simp: hex_val_special is_space_def)
  ultimately show ?thesis by (simp add: parse_unsigned16_def Let_def)
next
  case False
  then have s3: "skip_base_prefix [a, b] = [a, b]" by auto
  show ?thesis
  proof (cases "hex_val a")
    case None
    then show ?thesis by (simp add: parse_unsigned16_def Let_def s3)
  next
    case (Some x)
    note a = Some hex_val_not_special[OF Some]
    show ?thesis
    proof (cases "hex_val b")
      case (Some y)
      then show ?thesis using a hex_val_not_special[OF Some]
        by (simp add: parse_unsigned16_def Let_def s3)
    next
      case None
      show ?thesis
      proof (cases "is_space b")
        case True
        then show ?thesis using a None space_not_special[OF True]
          by (simp add: parse_unsigned16_def Let_def s3)
      next
        case False
        then show ?thesis using a None
          by (simp add: parse_unsigned16_def Let_def s3)
      qed
    qed
  qed
qed

lemma py_int16_skip_space: "is_space a \<Longrightarrow> py_int16 (a # s) = py_int16 s"
  by (simp add: py_int16_def)

lemma py_int16_single_ok:
  assumes "py_int16 [a] = Inr v"
  shows "hex_val a \<noteq> None \<or> is_space a \<or> a = CHR ''+'' \<or> a = CHR ''-''"
proof (rule ccontr)
  assume "\<not> ?thesis"
  then have "hex_val a = None" "\<not> is_space a" "a \<noteq> CHR ''+''" "a \<noteq> CHR ''-''" by auto
  then have "py_int16 [a] = Inl ValueError"
    by (simp add: py_int16_def parse_unsigned16_single)
  with assms show False by simp
qed

lemma py_int16_pair_ok:
  assumes "py_int16 [a, b] = Inr v" and "c = a \<or> c = b"
  shows "hex_val c \<noteq> None \<or> is_space c \<or> c = CHR ''+'' \<or> c = CHR ''-''"
proof (cases "is_space a")
  case True
  then have "py_int16 [b] = Inr v" using assms(1) by (simp add: py_int16_skip_space)
  then show ?thesis using py_int16_single_ok[of b v] True assms(2) by blast
next
  case False
  note nsp = False
  show ?thesis
  proof (cases "a = CHR ''+'' \<or> a = CHR ''-''")
    case True
    then have "parse_unsigned16 [b] \<noteq> None"
      using assms(1) nsp by (auto simp: py_int16_def split: option.splits)
    then have "hex_val b \<noteq> None" by (simp add: parse_unsigned16_single)
    then show ?thesis using True assms(2) by blast
  next
    case False
    then have "parse_unsigned16 [a, b] \<noteq> None"
      using assms(1) nsp by (auto simp: py_int16_def split: option.splits)
    then have "hex_val a \<noteq> None \<and> (hex_val b \<noteq> None \<or> is_space b)"
      by (auto simp: parse_unsigned16_pair split: option.splits if_splits)
    then show ?thesis using assms(2) by blast
  qed
qed

lemma py_int16_short_ok:
  assumes "length t \<le> 2" and "py_int16 t = Inr v" and "c \<in> set t"
  shows "hex_val c \<noteq> None \<or> is_space c \<or> c = CHR ''+'' \<or> c = CHR ''-''"
proof -
  from assms(1) consider "t = []" | a where "t = [a]" | a b where "t = [a, b]"
    by (cases t; cases "tl t"; cases "tl (tl t)") auto
  then show ?thesis
  proof cases
    case 1
    then show ?thesis using assms(3) by simp
  next
    case 2
    then show ?thesis using assms(2,3) py_int16_single_ok[of a v] by simp
  next
    case 3
    then show ?thesis using assms(2,3) py_int16_pair_ok[of a b v c] by simp
  qed
qed

lemma hex_to_rgb_Inr:
  assumes "hex_to_rgb s = Inr t"
  shows "\<exists>r g b. py_int16 (slice (lstrip_hash s) 0 2) = Inr r
      \<and> py_int16 (slice (lstrip_hash s) 2 4) = Inr g
      \<and> py_int16 (slice (lstrip_hash s) 4 6) = Inr b"
  using assms by (auto simp: hex_to_rgb_def Let_def split: sum.splits)

lemma take6_slices: "take 6 h = slice h 0 2 @ slice h 2 4 @ slice h 4 6"
proof -
  have "take 6 h = take (2 + (2 + 2)) h" by simp
  also have "\<dots> = take 2 h @ take 2 (drop 2 h) @ take 2 (drop 4 h)"
    by (simp only: take_add drop_drop) simp
  finally show ?thesis by (simp add: slice_def)
qed

lemma hex_to_rgb_formats:
  assumes "length s = 6" and "\<forall>c\<in>set s. is_hex_digit c" and "h = s \<or> h = CHR ''#'' # s"
  shows "\<exists>r g b. hex_to_rgb h = Inr (r, g, b)
     \<and> ''0x'' @ format_02X r = ''0x'' @ map ascii_upper (slice s 0 2)
     \<and> ''0x'' @ format_02X g = ''0x'' @ map ascii_upper (slice s 2 4)
     \<and> ''0x'' @ format_02X b = ''0x'' @ map ascii_upper (slice s 4 6)"
proof -
  obtain a b c d e f where s: "s = [a, b, c, d, e, f]"
    using assms(1) by (rule length_six)
  have hex: "is_hex_digit a" "is_hex_digit b" "is_hex_digit c" "is_hex_digit d"
    "is_hex_digit e" "is_hex_digit f"
    using assms(2) by (simp_all add: s)
  have "hex_to_rgb h = hex_to_rgb s"
    using assms(3) hex_to_rgb_reads_six[of "CHR ''#'' # s"] hex_to_rgb_reads_six[of s]
    by (auto simp: lstrip_hash_Cons_hash)
  then show ?thesis
    using hex_to_rgb_six[OF hex] by (simp add: s slice_def)
qed

text \<open>
  C2: for every string of exactly six hexadecimal digits, with or without one leading
  \<^verbatim>\<open>#\<close>, the parser returns a triple, and formatting each channel as \<^verbatim>\<open>0x\<close>
  followed by \<^verbatim>\<open>02X\<close> gives back the two digits of the channel in upper case.
\<close>

theorem hex_roundtrip:
  assumes "length s = 6" and "\<forall>c\<in>set s. is_hex_digit c" and "h = s \<or> h = CHR ''#'' # s"
  shows "\<exists>r g b. hex_to_rgb h = Inr (r, g, b)
     \<and> ''0x'' @ format_02X r = ''0x'' @ map ascii_upper (slice s 0 2)
     \<and> ''0x'' @ format_02X g = ''0x'' @ map ascii_upper (slice s 2 4)
     \<and> ''0x'' @ format_02X b = ''0x'' @ map ascii_upper (slice s 4 6)"
  using assms by (rule hex_to_rgb_formats)

theorem hex_roundtrip_witness:
  "\<exists>r g b. hex_to_rgb ''#7a4A2f'' = Inr (r, g, b)
     \<and> ''0x'' @ format_02X r = ''0x7A''
     \<and> ''0x'' @ format_02X g = ''0x4A''
     \<and> ''0x'' @ format_02X b = ''0x2F''"
  using hex_roundtrip[of "''7a4A2f''" "''#7a4A2f''"]
  by (simp add: is_hex_digit_def slice_def ascii_upper_hex)

text \<open>
  C9: the parser reads only the first six characters that follow the leading
  \<^verbatim>\<open>#\<close> characters. When these six characters \<open>p\<close> are hexadecimal digits, the
  parser returns a triple on the whole input, the same triple as on \<open>p\<close> alone, whatever
  follows them.
\<close>

theorem hex_to_rgb_prefix:
  assumes "length p = 6" and "\<forall>c\<in>set p. is_hex_digit c" and "take 6 (lstrip_hash s) = p"
  shows "\<exists>t. hex_to_rgb s = Inr t \<and> hex_to_rgb p = Inr t"
proof -
  obtain a b c d e f where p: "p = [a, b, c, d, e, f]"
    using assms(1) by (rule length_six)
  have hex: "is_hex_digit a" "is_hex_digit b" "is_hex_digit c" "is_hex_digit d"
    "is_hex_digit e" "is_hex_digit f"
    using assms(2) by (simp_all add: p)
  have "hex_to_rgb s = hex_to_rgb p"
    using hex_to_rgb_reads_six[of s] assms(3) by simp
  then show ?thesis
    using hex_to_rgb_six[OF hex] by (auto simp: p)
qed

theorem hex_to_rgb_prefix_witness:
  "\<exists>t. hex_to_rgb ''##7A4A2A99zz'' = Inr t \<and> hex_to_rgb ''7A4A2A'' = Inr t"
  using hex_to_rgb_prefix[of "''7A4A2A''" "''##7A4A2A99zz''"]
  by (simp add: is_hex_digit_def lstrip_hash_def)

text \<open>
  C4 says that every malformed input makes the parser fail. The script does not check the
  length: a string of seven hexadecimal digits is not well formed, and the parser returns
  the triple of its first six digits.
\<close>

theorem hex_to_rgb_malformed_counterexample:
  "\<not> well_formed_hex ''1234567'' \<and> hex_to_rgb ''1234567'' = Inr (18, 52, 86)"
  by (simp add: well_formed_hex_def hex_to_rgb_def lstrip_hash_def slice_def py_int16_def
      parse_unsigned16_def hex_val_def is_space_def)

text \<open>
  C4, as the script has it, for inputs whose characters are code points below 256 (the
  characters of \<^typ>\<open>string\<close>): the parser raises \<^verbatim>\<open>ValueError\<close> for every such input
  that, once its leading \<^verbatim>\<open>#\<close> characters are stripped, has fewer than five
  characters, or has among its first six characters one that is neither a hexadecimal
  digit, nor white space, nor a sign. Nothing is said of longer inputs, of inputs of five
  characters, or of inputs with white space or signs: the last lemma shows two that are
  accepted. Nothing is said either of characters beyond code point 255, where
  \<^verbatim>\<open>int\<close> also reads the decimal digits and the white space of other scripts.
\<close>

theorem hex_to_rgb_rejects:
  assumes "length (lstrip_hash s) < 5
     \<or> (\<exists>c\<in>set (take 6 (lstrip_hash s)).
           \<not> is_hex_digit c \<and> \<not> is_space c \<and> c \<noteq> CHR ''+'' \<and> c \<noteq> CHR ''-'')"
  shows "hex_to_rgb s = Inl ValueError"
proof (cases "hex_to_rgb s")
  case (Inl e)
  then show ?thesis using hex_to_rgb_error by blast
next
  case (Inr t)
  define h where "h = lstrip_hash s"
  obtain r g b where ok: "py_int16 (slice h 0 2) = Inr r" "py_int16 (slice h 2 4) = Inr g"
      "py_int16 (slice h 4 6) = Inr b"
    using hex_to_rgb_Inr[OF Inr] unfolding h_def by blast
  have "slice h 4 6 \<noteq> []" using ok(3) py_int16_empty by auto
  then have long: "\<not> length h < 5" by (auto simp: slice_def)
  have len: "length (slice h 0 2) \<le> 2" "length (slice h 2 4) \<le> 2" "length (slice h 4 6) \<le> 2"
    by (simp_all add: slice_def)
  have "hex_val c \<noteq> None \<or> is_space c \<or> c = CHR ''+'' \<or> c = CHR ''-''"
    if "c \<in> set (take 6 h)" for c
  proof -
    from that consider "c \<in> set (slice h 0 2)" | "c \<in> set (slice h 2 4)" | "c \<in> set (slice h 4 6)"
      unfolding take6_slices by auto
    then show ?thesis
      using py_int16_short_ok[OF len(1) ok(1)] py_int16_short_ok[OF len(2) ok(2)]
        py_int16_short_ok[OF len(3) ok(3)] by cases blast+
  qed
  then have "is_hex_digit c \<or> is_space c \<or> c = CHR ''+'' \<or> c = CHR ''-''"
    if "c \<in> set (take 6 h)" for c
    using that hex_val_is_hex_digit by blast
  with long assms show ?thesis unfolding h_def by blast
qed

theorem hex_to_rgb_rejects_witness:
  "hex_to_rgb ''#12G456'' = Inl ValueError \<and> hex_to_rgb ''1234'' = Inl ValueError"
  using hex_to_rgb_rejects[of "''#12G456''"] hex_to_rgb_rejects[of "''1234''"]
  by (simp add: lstrip_hash_def is_hex_digit_def is_space_def)

lemma hex_to_rgb_lenient:
  "hex_to_rgb ''12345'' = Inr (18, 52, 5)" "hex_to_rgb ''+1-f 3'' = Inr (1, - 15, 3)"
  by (simp_all add: hex_to_rgb_def lstrip_hash_def slice_def py_int16_def
      parse_unsigned16_def hex_val_def is_space_def)

section \<open>Properties of the descriptor\<close>

lemma format_3f_abs_one: "format_3f_abs 1 = ''1.000''"
  by code_simp

lemma build_contents_Inr:
  assumes "build_contents color_def = Inr contents"
  shows "\<exists>light_hex r g b dark_hex r_d g_d b_d.
      color_def ''light'' = Some light_hex \<and> call_hex_to_rgb light_hex = Inr (r, g, b)
    \<and> color_def ''dark'' = Some dark_hex \<and> call_hex_to_rgb dark_hex = Inr (r_d, g_d, b_d)
    \<and> (\<exists>alpha alpha_d.
          py_format_3f (get_default color_def ''light_alpha'' (PFloat (Finite 1))) = Inr alpha
        \<and> py_format_3f (get_default color_def ''dark_alpha'' (PFloat (Finite 1))) = Inr alpha_d
        \<and> contents =
            JObject
              [(''colors'', JArray [light_color alpha r g b, dark_color alpha_d r_d g_d b_d]),
               (''info'', JObject [(''author'', JString ''xcode''), (''version'', JInt 1)])])"
  using assms unfolding build_contents_def get_item_def
  by (simp split: option.splits sum.splits prod.splits)

lemma variants_contents:
  "variants (JObject [(''colors'', JArray vs), (''info'', i)]) = vs"
  by (simp add: variants_def)

lemma component_light: "component (light_color a r g b) ''alpha'' = Some (JString a)"
  by (simp add: component_def light_color_def color_payload_def)

lemma component_dark: "component (dark_color a r g b) ''alpha'' = Some (JString a)"
  by (simp add: component_def dark_color_def color_payload_def)

text \<open>
  C6: when a color definition has neither the key \<^verbatim>\<open>light_alpha\<close> nor the key
  \<^verbatim>\<open>dark_alpha\<close>, the alpha component of both variants of its descriptor is the
  string \<^verbatim>\<open>1.000\<close>.
\<close>

theorem default_alpha:
  assumes "color_def ''light_alpha'' = None" and "color_def ''dark_alpha'' = None"
    and "build_contents color_def = Inr contents"
  shows "map (\<lambda>v. component v ''alpha'') (variants contents)
     = [Some (JString ''1.000''), Some (JString ''1.000'')]"
proof -
  obtain alpha r g b alpha_d r_d g_d b_d where
    a: "py_format_3f (get_default color_def ''light_alpha'' (PFloat (Finite 1))) = Inr alpha"
      "py_format_3f (get_default color_def ''dark_alpha'' (PFloat (Finite 1))) = Inr alpha_d"
    and c: "contents =
            JObject
              [(''colors'', JArray [light_color alpha r g b, dark_color alpha_d r_d g_d b_d]),
               (''info'', JObject [(''author'', JString ''xcode''), (''version'', JInt 1)])]"
    using build_contents_Inr[OF assms(3)] by blast
  have "alpha = ''1.000''" "alpha_d = ''1.000''"
    using a assms(1,2) by (simp_all add: get_default_def format_3f_abs_one)
  then show ?thesis
    unfolding c variants_contents by (simp add: component_light component_dark)
qed

theorem default_alpha_witness:
  "\<exists>contents. build_contents [''light'' \<mapsto> PStr ''#F6F2EE'', ''dark'' \<mapsto> PStr ''#0E0E11''] = Inr contents
     \<and> map (\<lambda>v. component v ''alpha'') (variants contents)
         = [Some (JString ''1.000''), Some (JString ''1.000'')]"
proof -
  have b: "build_contents [''light'' \<mapsto> PStr ''#F6F2EE'', ''dark'' \<mapsto> PStr ''#0E0E11''] =
     Inr (JObject
           [(''colors'', JArray [light_color ''1.000'' 246 242 238, dark_color ''1.000'' 14 14 17]),
            (''info'', JObject [(''author'', JString ''xcode''), (''version'', JInt 1)])])"
    by code_simp
  show ?thesis using default_alpha[OF _ _ b] b by simp
qed

lemma upper_hex_ascii_upper: "is_hex_digit c \<Longrightarrow> is_upper_hex_digit (ascii_upper c)"
  by (auto simp: is_hex_digit_def is_upper_hex_digit_def ascii_upper_hex)

lemma well_formed_hex_cases:
  assumes "well_formed_hex h"
  obtains s where "length s = 6" and "\<forall>c\<in>set s. is_hex_digit c" and "h = s \<or> h = CHR ''#'' # s"
proof (cases h)
  case Nil
  then show ?thesis using assms by (simp add: well_formed_hex_def)
next
  case (Cons a t)
  show ?thesis
  proof (cases "a = CHR ''#''")
    case True
    then have "length t = 6" "\<forall>c\<in>set t. is_hex_digit c" "h = CHR ''#'' # t"
      using assms Cons by (simp_all add: well_formed_hex_def list_all_iff)
    then show ?thesis using that by blast
  next
    case False
    then have "length h = 6" "\<forall>c\<in>set h. is_hex_digit c"
      using assms Cons by (simp_all add: well_formed_hex_def list_all_iff)
    then show ?thesis using that by blast
  qed
qed

lemma well_formed_hex_channels:
  assumes "well_formed_hex h"
  shows "\<exists>r g b. hex_to_rgb h = Inr (r, g, b)
     \<and> is_channel_string (''0x'' @ format_02X r)
     \<and> is_channel_string (''0x'' @ format_02X g)
     \<and> is_channel_string (''0x'' @ format_02X b)"
proof -
  obtain s where s: "length s = 6" "\<forall>c\<in>set s. is_hex_digit c" "h = s \<or> h = CHR ''#'' # s"
    using assms by (rule well_formed_hex_cases)
  obtain c1 c2 c3 c4 c5 c6 where l: "s = [c1, c2, c3, c4, c5, c6]"
    using s(1) by (rule length_six)
  have u: "is_upper_hex_digit (ascii_upper c1)" "is_upper_hex_digit (ascii_upper c2)"
    "is_upper_hex_digit (ascii_upper c3)" "is_upper_hex_digit (ascii_upper c4)"
    "is_upper_hex_digit (ascii_upper c5)" "is_upper_hex_digit (ascii_upper c6)"
    using s(2) by (simp_all add: l upper_hex_ascii_upper)
  obtain r g b where "hex_to_rgb h = Inr (r, g, b)"
    "''0x'' @ format_02X r = ''0x'' @ map ascii_upper (slice s 0 2)"
    "''0x'' @ format_02X g = ''0x'' @ map ascii_upper (slice s 2 4)"
    "''0x'' @ format_02X b = ''0x'' @ map ascii_upper (slice s 4 6)"
    using hex_to_rgb_formats[OF s] by blast
  then show ?thesis using u
    by (simp add: l slice_def is_channel_string_def)
qed

lemma variant_tags:
  assumes "is_channel_string (''0x'' @ format_02X r)" "is_channel_string (''0x'' @ format_02X g)"
    "is_channel_string (''0x'' @ format_02X b)"
  shows "well_tagged (light_color a r g b)" and "well_tagged (dark_color a r g b)"
    and "member (light_color a r g b) ''appearances'' = None"
    and "member (dark_color a r g b) ''appearances'' =
      Some (JArray [JObject [(''appearance'', JString ''luminosity''), (''value'', JString ''dark'')]])"
  using assms
  by (simp_all add: well_tagged_def is_channel_def component_def color_space_def light_color_def
      dark_color_def color_payload_def)

lemma valid_color_def_contents:
  assumes "valid_color_def color_def"
  shows "\<exists>contents light dark. build_contents color_def = Inr contents
     \<and> variants contents = [light, dark]
     \<and> member light ''appearances'' = None
     \<and> member dark ''appearances'' =
         Some (JArray [JObject [(''appearance'', JString ''luminosity''), (''value'', JString ''dark'')]])
     \<and> well_tagged light \<and> well_tagged dark"
proof -
  obtain lh dh where h: "color_def ''light'' = Some (PStr lh)" "well_formed_hex lh"
    "color_def ''dark'' = Some (PStr dh)" "well_formed_hex dh"
    using assms
    by (auto simp: valid_color_def_def hex_field_def split: option.splits pyval.splits)
  obtain r g b where l: "hex_to_rgb lh = Inr (r, g, b)"
    "is_channel_string (''0x'' @ format_02X r)" "is_channel_string (''0x'' @ format_02X g)"
    "is_channel_string (''0x'' @ format_02X b)"
    using well_formed_hex_channels[OF h(2)] by blast
  obtain r_d g_d b_d where d: "hex_to_rgb dh = Inr (r_d, g_d, b_d)"
    "is_channel_string (''0x'' @ format_02X r_d)" "is_channel_string (''0x'' @ format_02X g_d)"
    "is_channel_string (''0x'' @ format_02X b_d)"
    using well_formed_hex_channels[OF h(4)] by blast
  obtain al where al: "py_format_3f (get_default color_def ''light_alpha'' (PFloat (Finite 1))) = Inr al"
    using assms
    by (auto simp: valid_color_def_def alpha_field_def get_default_def
        split: option.splits pyval.splits)
  obtain ad where ad: "py_format_3f (get_default color_def ''dark_alpha'' (PFloat (Finite 1))) = Inr ad"
    using assms
    by (auto simp: valid_color_def_def alpha_field_def get_default_def
        split: option.splits pyval.splits)
  have "build_contents color_def =
      Inr (JObject
             [(''colors'', JArray [light_color al r g b, dark_color ad r_d g_d b_d]),
              (''info'', JObject [(''author'', JString ''xcode''), (''version'', JInt 1)])])"
    using h(1,3) l(1) d(1) al ad by (simp add: build_contents_def get_item_def)
  then show ?thesis
    using variant_tags[OF l(2-4)] variant_tags[OF d(2-4)] variants_contents by fastforce
qed

lemma colors_valid: "list_all (\<lambda>(name, color_def). valid_color_def color_def) colors"
  by code_simp

lemma well_formed_hex_groups:
  assumes "well_formed_hex h"
  shows "\<exists>r g b. hex_to_rgb h = Inr (r, g, b)
     \<and> is_channel_string (''0x'' @ format_02X r)
     \<and> is_channel_string (''0x'' @ format_02X g)
     \<and> is_channel_string (''0x'' @ format_02X b)
     \<and> [Some (JString (''0x'' @ format_02X r)), Some (JString (''0x'' @ format_02X g)),
         Some (JString (''0x'' @ format_02X b))] = hex_groups h"
proof -
  obtain s where s: "length s = 6" "\<forall>c\<in>set s. is_hex_digit c" "h = s \<or> h = CHR ''#'' # s"
    using assms by (rule well_formed_hex_cases)
  obtain c1 c2 c3 c4 c5 c6 where l: "s = [c1, c2, c3, c4, c5, c6]"
    using s(1) by (rule length_six)
  have "is_hex_digit c1" using s(2) by (simp add: l)
  then have "lstrip_hash s = s" by (simp add: l lstrip_hash_hex)
  then have strip: "lstrip_hash h = s" using s(3) by (auto simp: lstrip_hash_Cons_hash)
  obtain r g b where rgb: "hex_to_rgb h = Inr (r, g, b)"
    "''0x'' @ format_02X r = ''0x'' @ map ascii_upper (slice s 0 2)"
    "''0x'' @ format_02X g = ''0x'' @ map ascii_upper (slice s 2 4)"
    "''0x'' @ format_02X b = ''0x'' @ map ascii_upper (slice s 4 6)"
    using hex_to_rgb_formats[OF s] by blast
  obtain r' g' b' where ch: "hex_to_rgb h = Inr (r', g', b')"
    "is_channel_string (''0x'' @ format_02X r')" "is_channel_string (''0x'' @ format_02X g')"
    "is_channel_string (''0x'' @ format_02X b')"
    using well_formed_hex_channels[OF assms] by blast
  have same: "r' = r" "g' = g" "b' = b" using rgb(1) ch(1) by simp_all
  have "[Some (JString (''0x'' @ format_02X r)), Some (JString (''0x'' @ format_02X g)),
         Some (JString (''0x'' @ format_02X b))] = hex_groups h"
    unfolding hex_groups_def strip using rgb(2,3,4) by (simp add: slice_def)
  then show ?thesis using rgb(1) ch(2,3,4) unfolding same by blast
qed

lemma variant_channels:
  "channels (light_color a r g b) =
     [Some (JString (''0x'' @ format_02X r)), Some (JString (''0x'' @ format_02X g)),
      Some (JString (''0x'' @ format_02X b))]"
  "channels (dark_color a r g b) =
     [Some (JString (''0x'' @ format_02X r)), Some (JString (''0x'' @ format_02X g)),
      Some (JString (''0x'' @ format_02X b))]"
  by (simp_all add: channels_def component_def light_color_def dark_color_def color_payload_def)

lemma valid_color_def_variants:
  assumes "valid_color_def color_def"
  shows "\<exists>contents light dark light_hex dark_hex.
       build_contents color_def = Inr contents \<and> variants contents = [light, dark]
     \<and> color_def ''light'' = Some (PStr light_hex) \<and> color_def ''dark'' = Some (PStr dark_hex)
     \<and> channels light = hex_groups light_hex \<and> channels dark = hex_groups dark_hex
     \<and> member light ''appearances'' = None
     \<and> member dark ''appearances'' =
         Some (JArray [JObject [(''appearance'', JString ''luminosity''), (''value'', JString ''dark'')]])
     \<and> well_tagged light \<and> well_tagged dark"
proof -
  obtain lh dh where h: "color_def ''light'' = Some (PStr lh)" "well_formed_hex lh"
    "color_def ''dark'' = Some (PStr dh)" "well_formed_hex dh"
    using assms
    by (auto simp: valid_color_def_def hex_field_def split: option.splits pyval.splits)
  obtain r g b where l: "hex_to_rgb lh = Inr (r, g, b)"
    "is_channel_string (''0x'' @ format_02X r)" "is_channel_string (''0x'' @ format_02X g)"
    "is_channel_string (''0x'' @ format_02X b)"
    "[Some (JString (''0x'' @ format_02X r)), Some (JString (''0x'' @ format_02X g)),
         Some (JString (''0x'' @ format_02X b))] = hex_groups lh"
    using well_formed_hex_groups[OF h(2)] by blast
  obtain r_d g_d b_d where d: "hex_to_rgb dh = Inr (r_d, g_d, b_d)"
    "is_channel_string (''0x'' @ format_02X r_d)" "is_channel_string (''0x'' @ format_02X g_d)"
    "is_channel_string (''0x'' @ format_02X b_d)"
    "[Some (JString (''0x'' @ format_02X r_d)), Some (JString (''0x'' @ format_02X g_d)),
         Some (JString (''0x'' @ format_02X b_d))] = hex_groups dh"
    using well_formed_hex_groups[OF h(4)] by blast
  obtain al where al: "py_format_3f (get_default color_def ''light_alpha'' (PFloat (Finite 1))) = Inr al"
    using assms
    by (auto simp: valid_color_def_def alpha_field_def get_default_def
        split: option.splits pyval.splits)
  obtain ad where ad: "py_format_3f (get_default color_def ''dark_alpha'' (PFloat (Finite 1))) = Inr ad"
    using assms
    by (auto simp: valid_color_def_def alpha_field_def get_default_def
        split: option.splits pyval.splits)
  have b: "build_contents color_def =
      Inr (JObject
             [(''colors'', JArray [light_color al r g b, dark_color ad r_d g_d b_d]),
              (''info'', JObject [(''author'', JString ''xcode''), (''version'', JInt 1)])])"
    using h(1,3) l(1) d(1) al ad by (simp add: build_contents_def get_item_def)
  have c: "channels (light_color al r g b) = hex_groups lh"
    "channels (dark_color ad r_d g_d b_d) = hex_groups dh"
    by (simp_all only: variant_channels l(5) d(5))
  show ?thesis
    using b h(1,3) c variant_tags[OF l(2-4), of al] variant_tags[OF d(2-4), of ad] variants_contents
    by (intro exI[of _ "JObject
             [(''colors'', JArray [light_color al r g b, dark_color ad r_d g_d b_d]),
              (''info'', JObject [(''author'', JString ''xcode''), (''version'', JInt 1)])]"]
        exI[of _ "light_color al r g b"] exI[of _ "dark_color ad r_d g_d b_d"]
        exI[of _ lh] exI[of _ dh]) simp
qed

text \<open>
  C1: for every color definition of the table, the descriptor is built, and its variant
  list holds exactly two variants: the first carries the channels of the string under
  \<^verbatim>\<open>light\<close>, the second those of the string under \<^verbatim>\<open>dark\<close>, each channel being
  \<^verbatim>\<open>0x\<close> followed by the two digits of its group in upper case. The light variant has
  no appearance tag; the dark variant has the tag of appearance \<^verbatim>\<open>luminosity\<close> with
  value \<^verbatim>\<open>dark\<close>. Both variants have the color space \<^verbatim>\<open>srgb\<close>, the idiom
  \<^verbatim>\<open>universal\<close>, and each of their red, green and blue channels is \<^verbatim>\<open>0x\<close> followed
  by exactly two upper-case hexadecimal digits.
\<close>

theorem descriptor_shape:
  assumes "(name, color_def) \<in> set colors"
  shows "\<exists>contents light dark light_hex dark_hex.
       build_contents color_def = Inr contents \<and> variants contents = [light, dark]
     \<and> color_def ''light'' = Some (PStr light_hex) \<and> color_def ''dark'' = Some (PStr dark_hex)
     \<and> channels light = hex_groups light_hex \<and> channels dark = hex_groups dark_hex
     \<and> member light ''appearances'' = None
     \<and> member dark ''appearances'' =
         Some (JArray [JObject [(''appearance'', JString ''luminosity''), (''value'', JString ''dark'')]])
     \<and> well_tagged light \<and> well_tagged dark"
proof -
  have "valid_color_def color_def"
    using colors_valid assms by (auto simp: list_all_iff)
  then show ?thesis by (rule valid_color_def_variants)
qed

theorem descriptor_shape_witness:
  "\<exists>contents light dark.
       build_contents [''light'' \<mapsto> PStr ''#F6F2EE'', ''dark'' \<mapsto> PStr ''#0E0E11''] = Inr contents
     \<and> variants contents = [light, dark]
     \<and> channels light = [Some (JString ''0xF6''), Some (JString ''0xF2''), Some (JString ''0xEE'')]
     \<and> channels dark = [Some (JString ''0x0E''), Some (JString ''0x0E''), Some (JString ''0x11'')]
     \<and> member light ''appearances'' = None
     \<and> member dark ''appearances'' =
         Some (JArray [JObject [(''appearance'', JString ''luminosity''), (''value'', JString ''dark'')]])
     \<and> well_tagged light \<and> well_tagged dark"
proof -
  have g: "hex_groups ''#F6F2EE'' = [Some (JString ''0xF6''), Some (JString ''0xF2''), Some (JString ''0xEE'')]"
    "hex_groups ''#0E0E11'' = [Some (JString ''0x0E''), Some (JString ''0x0E''), Some (JString ''0x11'')]"
    by (simp_all add: hex_groups_def lstrip_hash_def slice_def ascii_upper_hex)
  have i: "(''Background'', [''light'' \<mapsto> PStr ''#F6F2EE'', ''dark'' \<mapsto> PStr ''#0E0E11'']) \<in> set colors"
    by (simp add: colors_def)
  from descriptor_shape[OF i] show ?thesis by (auto simp: g)
qed

section \<open>Properties of the alpha format\<close>

lemma round_half_even_bound: "\<bar>of_int (round_half_even x) - x\<bar> \<le> 1 / 2"
proof -
  have "of_int \<lfloor>x\<rfloor> \<le> x" "x < of_int \<lfloor>x\<rfloor> + 1" by linarith+
  then show ?thesis by (auto simp: round_half_even_def Let_def)
qed

lemma round_half_even_nonneg: "0 \<le> x \<Longrightarrow> 0 \<le> round_half_even x"
proof -
  assume "0 \<le> x"
  then have "0 \<le> \<lfloor>x\<rfloor>" by simp
  then show ?thesis by (auto simp: round_half_even_def Let_def)
qed

lemma digit_char:
  assumes "d < 10"
  shows "is_dec_digit (char_of (48 + d))" and "digit_value (char_of (48 + d)) = d"
    and "char_of (48 + d) \<noteq> CHR ''.''"
  using assms by (simp_all add: is_dec_digit_def digit_value_def char_of_eq)

lemma digits_value_snoc: "digits_value (ds @ [c]) = 10 * digits_value ds + digit_value c"
  by (simp add: digits_value_def)

lemma dec_digits_props:
  "dec_digits n \<noteq> [] \<and> list_all is_dec_digit (dec_digits n)
     \<and> CHR ''.'' \<notin> set (dec_digits n) \<and> digits_value (dec_digits n) = n"
proof (induction n rule: dec_digits.induct)
  case (1 n)
  show ?case
  proof (cases "n < 10")
    case True
    then show ?thesis using digit_char[of n]
      by (auto simp: dec_digits.simps[of n] digits_value_def)
  next
    case False
    have "n mod 10 < 10" by simp
    note d = digit_char[OF this]
    from False 1 have ih: "dec_digits (n div 10) \<noteq> []" "list_all is_dec_digit (dec_digits (n div 10))"
      "CHR ''.'' \<notin> set (dec_digits (n div 10))" "digits_value (dec_digits (n div 10)) = n div 10"
      by simp_all
    show ?thesis using False ih d
      by (auto simp: dec_digits.simps[of n] digits_value_snoc)
  qed
qed

lemma mod_1000_digits: "(k::nat) mod 1000 = 100 * (k div 100 mod 10) + (10 * (k div 10 mod 10) + k mod 10)"
proof -
  have "k mod 1000 = k mod (100 * 10)" by simp
  also have "\<dots> = 100 * (k div 100 mod 10) + k mod 100" by (simp only: mod_mult2_eq)
  also have "k mod 100 = k mod (10 * 10)" by simp
  also have "\<dots> = 10 * (k div 10 mod 10) + k mod 10" by (simp only: mod_mult2_eq)
  finally show ?thesis .
qed

lemma three_digits_value:
  "digits_value [char_of (48 + k div 100 mod 10), char_of (48 + k div 10 mod 10), char_of (48 + k mod 10)]
     = k mod 1000"
proof -
  have d: "digit_value (char_of (48 + k div 100 mod 10)) = k div 100 mod 10"
    "digit_value (char_of (48 + k div 10 mod 10)) = k div 10 mod 10"
    "digit_value (char_of (48 + k mod 10)) = k mod 10"
    by (rule digit_char(2), simp)+
  show ?thesis
    unfolding mod_1000_digits digits_value_def by (simp only: foldl.simps d) simp
qed

lemma format_3f_abs_parts:
  "integer_digits (format_3f_abs q) = dec_digits (thousandths q div 1000)"
  "fraction_digits (format_3f_abs q) =
     [char_of (48 + thousandths q div 100 mod 10), char_of (48 + thousandths q div 10 mod 10),
      char_of (48 + thousandths q mod 10)]"
proof -
  have nodot: "\<forall>c\<in>set (dec_digits (thousandths q div 1000)). c \<noteq> CHR ''.''"
    using dec_digits_props[of "thousandths q div 1000"] by auto
  show "integer_digits (format_3f_abs q) = dec_digits (thousandths q div 1000)"
    unfolding integer_digits_def format_3f_abs_def Let_def thousandths_def[symmetric]
    using nodot by (simp add: takeWhile_append2)
  show "fraction_digits (format_3f_abs q) =
     [char_of (48 + thousandths q div 100 mod 10), char_of (48 + thousandths q div 10 mod 10),
      char_of (48 + thousandths q mod 10)]"
    unfolding fraction_digits_def format_3f_abs_def Let_def thousandths_def[symmetric]
    using nodot by (simp add: dropWhile_append2)
qed

lemma format_3f_abs_fraction:
  "length (fraction_digits (format_3f_abs q)) = 3"
  "list_all is_dec_digit (fraction_digits (format_3f_abs q))"
  by (simp_all add: format_3f_abs_parts digit_char(1))

lemma parse_format_3f_abs:
  "parse_unsigned_decimal (format_3f_abs q) = Some (of_nat (thousandths q) / 1000)"
proof -
  let ?k = "thousandths q"
  have whole: "format_3f_abs q = integer_digits (format_3f_abs q) @ ''.'' @ fraction_digits (format_3f_abs q)"
    unfolding format_3f_abs_parts
    by (simp add: format_3f_abs_def Let_def thousandths_def[symmetric])
  have ip: "integer_digits (format_3f_abs q) \<noteq> []" "list_all is_dec_digit (integer_digits (format_3f_abs q))"
    "digits_value (integer_digits (format_3f_abs q)) = ?k div 1000"
    using dec_digits_props[of "?k div 1000"] by (simp_all add: format_3f_abs_parts)
  have fp: "fraction_digits (format_3f_abs q) \<noteq> []" "digits_value (fraction_digits (format_3f_abs q)) = ?k mod 1000"
    by (simp_all add: format_3f_abs_parts three_digits_value)
  have "(of_nat (?k div 1000) :: rat) + of_nat (?k mod 1000) / 1000 = of_nat ?k / 1000"
  proof -
    have "(of_nat ?k :: rat) = of_nat (1000 * (?k div 1000) + ?k mod 1000)" by simp
    also have "\<dots> = 1000 * of_nat (?k div 1000) + of_nat (?k mod 1000)"
      by (simp only: of_nat_add of_nat_mult of_nat_numeral)
    finally show ?thesis by (simp add: field_simps)
  qed
  then show ?thesis
    unfolding parse_unsigned_decimal_def Let_def
    using whole[symmetric] ip fp format_3f_abs_fraction[of q] by simp
qed

lemma thousandths_close:
  assumes "0 \<le> q"
  shows "\<bar>of_nat (thousandths q) / 1000 - q\<bar> \<le> 5 / 10000"
proof -
  have "0 \<le> round_half_even (q * 1000)"
    using assms by (intro round_half_even_nonneg) simp
  then have "(of_nat (thousandths q) :: rat) = of_int (round_half_even (q * 1000))"
    by (simp add: thousandths_def)
  moreover have "\<bar>of_int (round_half_even (q * 1000)) - q * 1000\<bar> \<le> 1 / 2"
    by (rule round_half_even_bound)
  ultimately have "\<bar>of_nat (thousandths q) - q * 1000\<bar> \<le> 1 / 2" by simp
  then show ?thesis by (simp add: abs_le_iff field_simps)
qed

lemma format_3f_roundtrip:
  assumes "in_unit_interval a"
  shows "length (fraction_digits (format_3f a)) = 3
     \<and> list_all is_dec_digit (fraction_digits (format_3f a))
     \<and> (\<exists>v x. parse_decimal (format_3f a) = Some v \<and> float_value a = Some x
            \<and> \<bar>v - x\<bar> \<le> 5 / 10000)"
proof (cases a)
  case (Finite q)
  then have q: "0 \<le> q" "q \<le> 1" using assms by (simp_all add: in_unit_interval_def)
  have f: "format_3f a = format_3f_abs q" using Finite q by simp
  define ds where "ds = dec_digits (thousandths q div 1000)"
  have ds: "ds \<noteq> []" "list_all is_dec_digit ds"
    using dec_digits_props[of "thousandths q div 1000"] by (simp_all add: ds_def)
  then have "is_dec_digit (hd ds)" by (cases ds) simp_all
  moreover have "\<not> is_dec_digit CHR ''-''" by (simp add: is_dec_digit_def)
  ultimately have "hd ds \<noteq> CHR ''-''" by auto
  moreover obtain r where "format_3f_abs q = ds @ r"
    by (simp add: format_3f_abs_def Let_def thousandths_def[symmetric] ds_def)
  ultimately have "format_3f_abs q \<noteq> []" "hd (format_3f_abs q) \<noteq> CHR ''-''"
    using ds(1) by (simp_all add: hd_append)
  then have "parse_decimal (format_3f_abs q) = parse_unsigned_decimal (format_3f_abs q)"
    by (cases "format_3f_abs q") (auto simp: parse_decimal_def)
  then have p: "parse_decimal (format_3f a) = Some (of_nat (thousandths q) / 1000)"
    by (simp only: f parse_format_3f_abs)
  have fr: "length (fraction_digits (format_3f a)) = 3"
    "list_all is_dec_digit (fraction_digits (format_3f a))"
    by (simp_all only: f format_3f_abs_fraction)
  have fv: "float_value a = Some q" using Finite by simp
  show ?thesis using p fr fv thousandths_close[OF q(1)] by blast
next
  case NegZero
  have "fraction_digits ''-0.000'' = ''000''" "parse_decimal ''-0.000'' = Some 0"
    "list_all is_dec_digit ''000''"
    by code_simp+
  then show ?thesis using NegZero by simp
qed (use assms in \<open>simp_all add: in_unit_interval_def\<close>)

lemma alpha_given_default:
  assumes "alpha_given d k a"
  shows "py_format_3f (get_default d k (PFloat (Finite 1))) = Inr (format_3f a)"
  using assms by (simp add: alpha_given_def get_default_def split: option.splits)

lemma faint_shadow_alphas:
  "variant_alphas faint_shadow = [Some (JString ''0.062''), Some (JString ''1.000'')]"
  by code_simp

lemma py_float_0_062: "py_float ''0.062'' = Some (Finite (1116892707587883 / 18014398509481984))"
  by code_simp

text \<open>
  C5 says that the alpha string of a variant, parsed back as a number, is within 0.0005
  of the alpha value. For the alpha value 0.0625 the string is \<^verbatim>\<open>0.062\<close>, since
  \<^verbatim>\<open>.3f\<close> rounds the tie to the even digit; read back as a float this string gives
  the double nearest to 0.062, which lies slightly below 0.062, at a distance from
  0.0625 that exceeds 0.0005.
\<close>

theorem alpha_read_back_counterexample:
  "in_unit_interval (Finite (1 / 16))
   \<and> alpha_given faint_shadow ''light_alpha'' (Finite (1 / 16))
   \<and> variant_alphas faint_shadow = [Some (JString ''0.062''), Some (JString ''1.000'')]
   \<and> py_float ''0.062'' = Some (Finite (1116892707587883 / 18014398509481984))
   \<and> \<not> \<bar>1116892707587883 / 18014398509481984 - 1 / 16\<bar> \<le> (5 / 10000 :: rat)"
proof -
  have "in_unit_interval (Finite (1 / 16))" by (simp add: in_unit_interval_def)
  moreover have "alpha_given faint_shadow ''light_alpha'' (Finite (1 / 16))"
    by (simp add: alpha_given_def faint_shadow_def)
  moreover have "\<not> \<bar>1116892707587883 / 18014398509481984 - 1 / 16\<bar> \<le> (5 / 10000 :: rat)"
    by simp
  ultimately show ?thesis using faint_shadow_alphas py_float_0_062 by blast
qed

text \<open>
  C5, as the script has it: for every alpha value in the closed interval from 0 to 1,
  given under \<^verbatim>\<open>light_alpha\<close> or \<^verbatim>\<open>dark_alpha\<close> or left to the default, the alpha
  component of the corresponding variant of the descriptor is a string with exactly three
  digits after the decimal point, and the decimal number that this string denotes is
  within 0.0005 of the exact value of the alpha.
\<close>

theorem variant_alpha_roundtrip:
  assumes "build_contents color_def = Inr contents"
    and "(key, v) \<in> {(''light_alpha'', variants contents ! 0), (''dark_alpha'', variants contents ! 1)}"
    and "alpha_given color_def key a" and "in_unit_interval a"
  shows "\<exists>s. component v ''alpha'' = Some (JString s)
     \<and> length (fraction_digits s) = 3 \<and> list_all is_dec_digit (fraction_digits s)
     \<and> (\<exists>d x. parse_decimal s = Some d \<and> float_value a = Some x \<and> \<bar>d - x\<bar> \<le> 5 / 10000)"
proof -
  obtain alpha r g b alpha_d r_d g_d b_d where
    al: "py_format_3f (get_default color_def ''light_alpha'' (PFloat (Finite 1))) = Inr alpha"
      "py_format_3f (get_default color_def ''dark_alpha'' (PFloat (Finite 1))) = Inr alpha_d"
    and c: "contents =
            JObject
              [(''colors'', JArray [light_color alpha r g b, dark_color alpha_d r_d g_d b_d]),
               (''info'', JObject [(''author'', JString ''xcode''), (''version'', JInt 1)])]"
    using build_contents_Inr[OF assms(1)] by blast
  have vs: "variants contents ! 0 = light_color alpha r g b"
    "variants contents ! 1 = dark_color alpha_d r_d g_d b_d"
    unfolding c variants_contents by simp_all
  have "component v ''alpha'' = Some (JString (format_3f a))"
  proof (cases "key = ''light_alpha''")
    case True
    then have "v = light_color alpha r g b" using assms(2) vs by auto
    moreover have "alpha = format_3f a"
      using alpha_given_default[OF assms(3)] al(1) True by simp
    ultimately show ?thesis by (simp add: component_light)
  next
    case False
    then have k: "key = ''dark_alpha''" and "v = dark_color alpha_d r_d g_d b_d"
      using assms(2) vs by auto
    moreover have "alpha_d = format_3f a"
      using alpha_given_default[OF assms(3)] al(2) k by simp
    ultimately show ?thesis by (simp add: component_dark)
  qed
  then show ?thesis using format_3f_roundtrip[OF assms(4)] by blast
qed

theorem variant_alpha_roundtrip_witness:
  "\<exists>contents. build_contents
        [''light'' \<mapsto> PStr ''#000000'', ''light_alpha'' \<mapsto> PFloat float_0_06,
         ''dark'' \<mapsto> PStr ''#FFFFFF'', ''dark_alpha'' \<mapsto> PFloat float_0_06] = Inr contents
     \<and> component (variants contents ! 0) ''alpha'' = Some (JString ''0.060'')
     \<and> length (fraction_digits ''0.060'') = 3
     \<and> (\<exists>d x. parse_decimal ''0.060'' = Some d \<and> float_value float_0_06 = Some x
            \<and> \<bar>d - x\<bar> \<le> 5 / 10000)"
proof -
  let ?d = "[''light'' \<mapsto> PStr ''#000000'', ''light_alpha'' \<mapsto> PFloat float_0_06,
         ''dark'' \<mapsto> PStr ''#FFFFFF'', ''dark_alpha'' \<mapsto> PFloat float_0_06]"
  let ?c = "JObject
           [(''colors'', JArray [light_color ''0.060'' 0 0 0, dark_color ''0.060'' 255 255 255]),
            (''info'', JObject [(''author'', JString ''xcode''), (''version'', JInt 1)])]"
  have b: "build_contents ?d = Inr ?c"
    by code_simp
  have k: "(''light_alpha'', variants ?c ! 0) \<in>
      {(''light_alpha'', variants ?c ! 0), (''dark_alpha'', variants ?c ! 1)}"
    by simp
  have g: "alpha_given ?d ''light_alpha'' float_0_06" by (simp add: alpha_given_def)
  have u: "in_unit_interval float_0_06" by (simp add: in_unit_interval_def float_0_06_def)
  have v: "component (variants ?c ! 0) ''alpha'' = Some (JString ''0.060'')"
    unfolding variants_contents by (simp add: component_light)
  from variant_alpha_roundtrip[OF b k g u] show ?thesis
    unfolding v using b v by auto
qed

section \<open>Properties of paths\<close>

lemma split_slash_nonempty: "split_slash s \<noteq> []"
  by (induction s) (auto split: list.splits)

lemma split_slash_append: "split_slash (a @ CHR ''/'' # b) = split_slash a @ split_slash b"
proof (induction a)
  case Nil
  show ?case by simp
next
  case (Cons c a)
  then show ?case using split_slash_nonempty[of a]
    by (cases "split_slash a") auto
qed

lemma split_slash_no_slash: "CHR ''/'' \<notin> set w \<Longrightarrow> split_slash w = [w]"
  by (induction w) auto

lemma components_append: "components (a @ CHR ''/'' # b) = components a @ components b"
  by (simp add: components_def split_slash_append)

lemma components_no_slash: "CHR ''/'' \<notin> set w \<Longrightarrow> w \<noteq> [] \<Longrightarrow> components w = [w]"
  by (simp add: components_def split_slash_no_slash)

lemma components_trailing_slash:
  assumes "a \<noteq> []" and "last a = CHR ''/''"
  shows "components (a @ b) = components a @ components b"
proof -
  obtain a' where a: "a = a' @ [CHR ''/'']"
    using assms by (metis append_butlast_last_id)
  have "components (a @ b) = components a' @ components b"
    unfolding a using components_append[of a' b] by simp
  moreover have "components a = components a'"
    unfolding a using components_append[of a' "[]"] by (simp add: components_def)
  ultimately show ?thesis by simp
qed

lemma components_join:
  assumes "b \<noteq> []" and "hd b \<noteq> CHR ''/''"
  shows "components (os_path_join a b) = components a @ components b"
proof (cases "a = []")
  case True
  then show ?thesis by (simp add: os_path_join_def assms components_def)
next
  case False
  show ?thesis
  proof (cases "last a = CHR ''/''")
    case True
    then show ?thesis using False assms
      by (simp add: os_path_join_def components_trailing_slash)
  next
    case False
    then show ?thesis using \<open>a \<noteq> []\<close> assms
      by (simp add: os_path_join_def components_append)
  qed
qed

lemma contents_file_of_folder: "contents_file_of name = folder_of name @ [''Contents.json'']"
proof -
  have "components ''Contents.json'' = [''Contents.json'']"
    by (rule components_no_slash) simp_all
  then show ?thesis
    unfolding contents_file_of_def folder_of_def
    by (subst components_join) simp_all
qed

lemma assets_root: "components assets_path =
    [''Users'', ''guo'', ''Documents'', ''iOS'', ''KuaiJi'', ''KuaiJi_IOSApp'', ''KuaiJi'', ''Assets.xcassets'']"
  by code_simp

lemma folder_of_simple:
  assumes "CHR ''/'' \<notin> set name"
  shows "folder_of name = components assets_path @ [name @ ''.colorset'']"
proof -
  have "hd (name @ ''.colorset'') \<noteq> CHR ''/''"
    using assms by (cases name) auto
  then have "folder_of name = components assets_path @ components (name @ ''.colorset'')"
    unfolding folder_of_def by (subst components_join) simp_all
  moreover have "components (name @ ''.colorset'') = [name @ ''.colorset'']"
    using assms by (intro components_no_slash) auto
  ultimately show ?thesis by simp
qed

lemma split_slash_suffix:
  assumes "CHR ''/'' \<notin> set w"
  shows "split_slash (s @ w) = butlast (split_slash s) @ [last (split_slash s) @ w]"
  using assms
proof (induction s)
  case Nil
  then show ?case by (simp add: split_slash_no_slash)
next
  case (Cons c s)
  then show ?case using split_slash_nonempty[of s] split_slash_nonempty[of "s @ w"]
    by (cases "split_slash s") (auto split: list.splits)
qed

lemma components_suffix_nonempty:
  assumes "CHR ''/'' \<notin> set w" and "w \<noteq> []"
  shows "components (s @ w) \<noteq> []"
proof -
  have "last (split_slash s) @ w \<in> set (split_slash (s @ w))"
    using split_slash_suffix[OF assms(1)] by simp
  moreover have "last (split_slash s) @ w \<noteq> []" using assms(2) by simp
  ultimately show ?thesis by (auto simp: components_def filter_empty_conv)
qed

lemma folder_of_nonempty: "folder_of name \<noteq> []"
proof -
  have "\<exists>s. os_path_join assets_path (name @ ''.colorset'') = s @ ''.colorset''"
    by (auto simp: os_path_join_def)
  then obtain s where "os_path_join assets_path (name @ ''.colorset'') = s @ ''.colorset''" ..
  then show ?thesis
    unfolding folder_of_def using components_suffix_nonempty[of "''.colorset''" s] by simp
qed

lemma ancestors_snoc: "ancestors (p @ [x]) = ancestors p @ [p @ [x]]"
proof -
  have "map (\<lambda>n. take n (p @ [x])) [1..<Suc (length p)] = map (\<lambda>n. take n p) [1..<Suc (length p)]"
    by (rule map_cong) auto
  moreover have "[1..<Suc (length (p @ [x]))] = [1..<Suc (length p)] @ [Suc (length p)]"
    by simp
  ultimately show ?thesis
    unfolding ancestors_def by (simp del: upt_Suc)
qed

lemma ancestors_last: "p \<noteq> [] \<Longrightarrow> ancestors p = butlast (ancestors p) @ [p]"
  by (cases p rule: rev_cases) (simp_all add: ancestors_snoc)

lemma in_ancestors: "q \<in> set (ancestors p) \<Longrightarrow> q \<noteq> [] \<and> length q \<le> length p"
  by (auto simp: ancestors_def)

lemma self_in_ancestors: "p \<noteq> [] \<Longrightarrow> p \<in> set (ancestors p)"
  using ancestors_last[of p] by (metis in_set_conv_decomp)

lemma contents_not_ancestor: "contents_file_of name \<notin> set (ancestors (folder_of name'))" if "length (folder_of name') \<le> length (folder_of name)"
  using in_ancestors[of "contents_file_of name" "folder_of name'"] that
  by (auto simp: contents_file_of_folder)

section \<open>One entry of the table\<close>

lemma file_in_the_way_iff:
  "file_in_the_way fsys name \<longleftrightarrow>
     list_ex (is_file fsys) (butlast (ancestors (folder_of name))) \<or> is_file fsys (folder_of name)"
proof -
  have "list_ex (is_file fsys) (ancestors (folder_of name)) =
      list_ex (is_file fsys) (butlast (ancestors (folder_of name)) @ [folder_of name])"
    using ancestors_last[OF folder_of_nonempty, of name] by simp
  then show ?thesis by (simp add: file_in_the_way_def)
qed

lemma makedirs_folder:
  "makedirs_exist_ok (os_path_join assets_path (name @ ''.colorset'')) fsys =
     (if file_in_the_way fsys name
      then Inl (if list_ex (is_file fsys) (butlast (ancestors (folder_of name)))
                then NotADirectoryError else FileExistsError)
      else Inr (with_dirs name fsys))"
  unfolding makedirs_exist_ok_def folder_of_def[symmetric] Let_def file_in_the_way_iff
  by (simp add: with_dirs_def)

lemma is_file_with_dirs: "is_file (with_dirs name fsys) = is_file fsys"
  by (simp add: is_file_def with_dirs_def fun_eq_iff)

lemma write_contents:
  assumes "\<not> file_in_the_way fsys name"
  shows "write_file (os_path_join (os_path_join assets_path (name @ ''.colorset'')) ''Contents.json'')
       data (with_dirs name fsys)
     = (if dir_in_the_way fsys name then Inl IsADirectoryError else Inr (emitted name data fsys))"
proof -
  let ?F = "folder_of name" and ?P = "contents_file_of name"
  have P: "?P = ?F @ [''Contents.json'']" by (rule contents_file_of_folder)
  have "?P \<notin> set (ancestors ?F)" by (rule contents_not_ancestor) simp
  then have d: "is_dir (with_dirs name fsys) ?P \<longleftrightarrow> dir_in_the_way fsys name"
    by (simp add: is_dir_def with_dirs_def dir_in_the_way_def P)
  have a: "butlast (ancestors ?P) = ancestors ?F"
    by (simp add: P ancestors_snoc)
  have f: "\<not> list_ex (is_file (with_dirs name fsys)) (butlast (ancestors ?P))"
    using assms by (simp add: a is_file_with_dirs file_in_the_way_def)
  have "?F \<in> set (ancestors ?F)" using folder_of_nonempty by (rule self_in_ancestors)
  then have p: "is_dir (with_dirs name fsys) (butlast ?P)"
    by (simp add: P is_dir_def with_dirs_def)
  show ?thesis
    unfolding write_file_def contents_file_of_def[symmetric] Let_def
    using d f p by (simp add: emitted_def with_dirs_def)
qed

lemma create_color_set_cases:
  "create_color_set name d s =
     (if file_in_the_way (disk s) name
      then (Inl (if list_ex (is_file (disk s)) (butlast (ancestors (folder_of name)))
                 then NotADirectoryError else FileExistsError), s)
      else (case build_contents d of
              Inl e \<Rightarrow> (Inl e, s\<lparr>disk := with_dirs name (disk s)\<rparr>)
            | Inr contents \<Rightarrow>
                if dir_in_the_way (disk s) name
                then (Inl IsADirectoryError, s\<lparr>disk := with_dirs name (disk s)\<rparr>)
                else (Inr (), s\<lparr>disk := emitted name (json_dump_indent2 contents) (disk s)\<rparr>)))"
  unfolding create_color_set_def Let_def makedirs_folder
  by (simp add: write_contents split: sum.splits)

lemma create_color_set_table: "table (snd (create_color_set name d s)) = table s"
  by (simp add: create_color_set_cases split: sum.splits)

lemma create_color_set_console: "console (snd (create_color_set name d s)) = console s"
  by (simp add: create_color_set_cases split: sum.splits)

lemma create_color_set_disk:
  "disk (snd (create_color_set name d s)) = disk s
   \<or> disk (snd (create_color_set name d s)) = with_dirs name (disk s)
   \<or> (\<exists>data. disk (snd (create_color_set name d s)) = emitted name data (disk s))"
  by (auto simp: create_color_set_cases split: sum.splits)

lemma create_color_set_dirs:
  "dirs (disk s) \<subseteq> dirs (disk (snd (create_color_set name d s)))"
  "dirs (disk (snd (create_color_set name d s))) \<subseteq> dirs (disk s) \<union> set (ancestors (folder_of name))"
  using create_color_set_disk[of name d s]
  by (auto simp: with_dirs_def emitted_def)

lemma create_color_set_files:
  "p \<noteq> contents_file_of name \<Longrightarrow> files (disk (snd (create_color_set name d s))) p = files (disk s) p"
  using create_color_set_disk[of name d s]
  by (auto simp: with_dirs_def emitted_def)

lemma build_contents_reads:
  assumes "\<forall>k\<in>set [''light'', ''dark'', ''light_alpha'', ''dark_alpha'']. d k = d' k"
  shows "build_contents d = build_contents d'"
proof -
  have g: "get_item d ''light'' = get_item d' ''light''" "get_item d ''dark'' = get_item d' ''dark''"
    "get_default d ''light_alpha'' = get_default d' ''light_alpha''"
    "get_default d ''dark_alpha'' = get_default d' ''dark_alpha''"
    using assms by (simp_all add: get_item_def get_default_def fun_eq_iff)
  show ?thesis unfolding build_contents_def g ..
qed

lemma create_color_set_reads:
  assumes "\<forall>k\<in>set [''light'', ''dark'', ''light_alpha'', ''dark_alpha'']. d k = d' k"
  shows "create_color_set name d s = create_color_set name d' s"
  unfolding create_color_set_def build_contents_reads[OF assms] ..

lemma run_items_table: "table (snd (run_items items s)) = table s"
proof (induction items arbitrary: s)
  case Nil
  show ?case by simp
next
  case (Cons item items)
  obtain name d where item: "item = (name, d)" by (cases item)
  obtain r s1 where step: "create_color_set name d s = (r, s1)" by (cases "create_color_set name d s")
  have "table s1 = table s" using create_color_set_table[of name d s] step by simp
  then show ?case using Cons.IH step
    by (cases r) (simp_all add: item print_line_def)
qed

text \<open>
  C10: processing an entry changes neither the table in memory nor the color definition
  it is given, so that after a full run the table is what it was before. The function
  \<^verbatim>\<open>create_color_set\<close> prints nothing; the directories it adds are the directory of
  the entry and those above it; the only file it changes is the descriptor of the entry;
  and its result depends on the color definition only through the four keys
  \<^verbatim>\<open>light\<close>, \<^verbatim>\<open>dark\<close>, \<^verbatim>\<open>light_alpha\<close> and \<^verbatim>\<open>dark_alpha\<close>.
\<close>

theorem entry_frame:
  "table (snd (generate s)) = table s
   \<and> table (snd (create_color_set name d s)) = table s
   \<and> console (snd (create_color_set name d s)) = console s
   \<and> dirs (disk s) \<subseteq> dirs (disk (snd (create_color_set name d s)))
   \<and> dirs (disk (snd (create_color_set name d s))) \<subseteq> dirs (disk s) \<union> set (ancestors (folder_of name))
   \<and> (\<forall>p. p \<noteq> contents_file_of name \<longrightarrow>
          files (disk (snd (create_color_set name d s))) p = files (disk s) p)
   \<and> ((\<forall>k\<in>set [''light'', ''dark'', ''light_alpha'', ''dark_alpha'']. d k = d' k) \<longrightarrow>
          create_color_set name d s = create_color_set name d' s)"
proof -
  have "table (snd (generate s)) = table s"
    by (simp add: generate_def run_items_table)
  moreover note create_color_set_table[of name d s] create_color_set_console[of name d s]
    create_color_set_dirs[where s=s and name=name and d=d]
  moreover have "\<forall>p. p \<noteq> contents_file_of name \<longrightarrow>
          files (disk (snd (create_color_set name d s))) p = files (disk s) p"
    using create_color_set_files by blast
  moreover have "(\<forall>k\<in>set [''light'', ''dark'', ''light_alpha'', ''dark_alpha'']. d k = d' k) \<longrightarrow>
          create_color_set name d s = create_color_set name d' s"
    using create_color_set_reads by blast
  ultimately show ?thesis by blast
qed

theorem entry_frame_witness:
  "table (snd (generate fresh_state)) = colors
   \<and> create_color_set ''Info'' [''light'' \<mapsto> PStr ''#7A93E0'', ''dark'' \<mapsto> PStr ''#7A93E0''] fresh_state
       = create_color_set ''Info''
           [''light'' \<mapsto> PStr ''#7A93E0'', ''dark'' \<mapsto> PStr ''#7A93E0'', ''note'' \<mapsto> PStr ''x'']
           fresh_state
   \<and> files (disk (snd (create_color_set ''Info''
          [''light'' \<mapsto> PStr ''#7A93E0'', ''dark'' \<mapsto> PStr ''#7A93E0''] fresh_state))) [] = None"
proof -
  let ?d = "[''light'' \<mapsto> PStr ''#7A93E0'', ''dark'' \<mapsto> PStr ''#7A93E0'']"
  let ?d' = "[''light'' \<mapsto> PStr ''#7A93E0'', ''dark'' \<mapsto> PStr ''#7A93E0'', ''note'' \<mapsto> PStr ''x'']"
  have h: "\<forall>k\<in>set [''light'', ''dark'', ''light_alpha'', ''dark_alpha'']. ?d k = ?d' k"
    by simp
  have p: "[] \<noteq> contents_file_of ''Info''"
    by (simp add: contents_file_of_folder)
  have t: "table fresh_state = colors" "files (disk fresh_state) [] = None"
    by (simp_all add: fresh_state_def)
  from entry_frame[of fresh_state "''Info''" ?d ?d'] h p
  have "table (snd (generate fresh_state)) = table fresh_state"
    "create_color_set ''Info'' ?d fresh_state = create_color_set ''Info'' ?d' fresh_state"
    "files (disk (snd (create_color_set ''Info'' ?d fresh_state))) [] = files (disk fresh_state) []"
    by blast+
  then show ?thesis by (simp only: t)
qed

section \<open>A run over the table\<close>

lemma valid_payload:
  assumes "valid_color_def d"
  obtains contents where "build_contents d = Inr contents"
    and "payload d = json_dump_indent2 contents" and "length (variants contents) = 2"
proof -
  obtain contents light dark where "build_contents d = Inr contents" "variants contents = [light, dark]"
    using valid_color_def_contents[OF assms] by blast
  then show ?thesis using that by (simp add: payload_def)
qed

lemma step_valid:
  assumes "valid_color_def d"
  shows "create_color_set name d s =
     (if file_in_the_way (disk s) name
      then (Inl (if list_ex (is_file (disk s)) (butlast (ancestors (folder_of name)))
                 then NotADirectoryError else FileExistsError), s)
      else if dir_in_the_way (disk s) name
        then (Inl IsADirectoryError, s\<lparr>disk := with_dirs name (disk s)\<rparr>)
        else (Inr (), s\<lparr>disk := emitted name (payload d) (disk s)\<rparr>))"
proof -
  obtain contents where "build_contents d = Inr contents" "payload d = json_dump_indent2 contents"
    using assms by (rule valid_payload)
  then show ?thesis by (simp add: create_color_set_cases)
qed

lemma step_ok_iff:
  assumes "valid_color_def d"
  shows "fst (create_color_set name d s) = Inr () \<longleftrightarrow> \<not> blocked (disk s) name"
  by (simp add: step_valid[OF assms] blocked_def)

lemma step_ok_disk:
  assumes "valid_color_def d" and "\<not> blocked (disk s) name"
  shows "snd (create_color_set name d s) = s\<lparr>disk := emitted name (payload d) (disk s)\<rparr>"
  using assms(2) by (simp add: step_valid[OF assms(1)] blocked_def)

lemma folder_level: "simple_name n \<Longrightarrow> length (folder_of n) = Suc (length (components assets_path))"
  by (simp add: simple_name_def folder_of_simple)

lemma is_file_emitted:
  "is_file (emitted n' data fsys) p \<longleftrightarrow> p = contents_file_of n' \<or> is_file fsys p"
  by (simp add: is_file_def emitted_def with_dirs_def)

lemma file_in_the_way_with_dirs: "file_in_the_way (with_dirs n' fsys) n = file_in_the_way fsys n"
  by (simp add: file_in_the_way_def is_file_with_dirs)

lemma file_in_the_way_emitted:
  assumes "simple_name n" and "simple_name n'"
  shows "file_in_the_way (emitted n' data fsys) n = file_in_the_way fsys n"
proof -
  have "contents_file_of n' \<notin> set (ancestors (folder_of n))"
    by (rule contents_not_ancestor) (simp add: folder_level assms)
  then show ?thesis
    by (auto simp: file_in_the_way_def list_ex_iff is_file_emitted)
qed

lemma dirs_emitted: "dirs (emitted n' data fsys) = dirs (with_dirs n' fsys)"
  by (simp add: emitted_def)

lemma dir_in_the_way_with_dirs:
  assumes "simple_name n" and "simple_name n'"
  shows "dir_in_the_way (with_dirs n' fsys) n = dir_in_the_way fsys n"
proof -
  have "contents_file_of n \<notin> set (ancestors (folder_of n'))"
    by (rule contents_not_ancestor) (simp add: folder_level assms)
  then show ?thesis by (simp add: dir_in_the_way_def with_dirs_def)
qed

lemma dir_in_the_way_emitted:
  assumes "simple_name n" and "simple_name n'"
  shows "dir_in_the_way (emitted n' data fsys) n = dir_in_the_way fsys n"
  using dir_in_the_way_with_dirs[OF assms] by (simp add: dir_in_the_way_def dirs_emitted)

lemma step_keeps_blocked:
  assumes "simple_name n" and "simple_name n'"
  shows "file_in_the_way (disk (snd (create_color_set n' d s))) n = file_in_the_way (disk s) n"
    and "dir_in_the_way (disk (snd (create_color_set n' d s))) n = dir_in_the_way (disk s) n"
  using create_color_set_disk[of n' d s]
  by (auto simp: file_in_the_way_with_dirs file_in_the_way_emitted[OF assms]
      dir_in_the_way_with_dirs[OF assms] dir_in_the_way_emitted[OF assms])

lemma step_disk_det:
  assumes "disk s = disk s'"
  shows "fst (create_color_set n d s) = fst (create_color_set n d s')"
    and "disk (snd (create_color_set n d s)) = disk (snd (create_color_set n d s'))"
  using assms by (simp_all add: create_color_set_cases split: sum.splits)

lemma run_items_Cons:
  "run_items ((n, d) # rest) s =
     (if fst (create_color_set n d s) = Inr ()
      then run_items rest (print_line (confirmation n) (snd (create_color_set n d s)))
      else create_color_set n d s)"
proof (cases "create_color_set n d s")
  case (Pair r s1)
  then show ?thesis by (cases r) (simp_all add: confirmation_def)
qed

lemma disk_print_line: "disk (print_line l s) = disk s"
  by (simp add: print_line_def)

declare run_items.simps(2) [simp del]

lemma run_disk_det:
  assumes "disk s = disk s'"
  shows "fst (run_items items s) = fst (run_items items s')
     \<and> disk (snd (run_items items s)) = disk (snd (run_items items s'))"
  using assms
proof (induction items arbitrary: s s')
  case Nil
  then show ?case by simp
next
  case (Cons item items)
  obtain n d where item: "item = (n, d)" by (cases item)
  note det = step_disk_det[OF Cons.prems, of n d]
  show ?case
  proof (cases "fst (create_color_set n d s) = Inr ()")
    case True
    have "disk (print_line (confirmation n) (snd (create_color_set n d s)))
        = disk (print_line (confirmation n) (snd (create_color_set n d s')))"
      using det(2) by (simp add: disk_print_line)
    from Cons.IH[OF this] show ?thesis
      using True det(1) by (simp add: item run_items_Cons)
  next
    case False
    then show ?thesis using det by (simp add: item run_items_Cons)
  qed
qed

lemma run_keeps_blocked:
  assumes "\<forall>item\<in>set items. simple_name (fst item)" and "simple_name n"
  shows "file_in_the_way (disk (snd (run_items items s))) n = file_in_the_way (disk s) n
     \<and> dir_in_the_way (disk (snd (run_items items s))) n = dir_in_the_way (disk s) n"
  using assms(1)
proof (induction items arbitrary: s)
  case Nil
  show ?case by simp
next
  case (Cons item items)
  obtain m d where item: "item = (m, d)" by (cases item)
  have m: "simple_name m" using Cons.prems by (simp add: item)
  note keep = step_keeps_blocked[OF assms(2) m, of d s]
  show ?case
  proof (cases "fst (create_color_set m d s) = Inr ()")
    case True
    have "\<forall>item\<in>set items. simple_name (fst item)" using Cons.prems by simp
    from Cons.IH[OF this, of "print_line (confirmation m) (snd (create_color_set m d s))"]
    show ?thesis using True keep by (simp add: item run_items_Cons disk_print_line)
  next
    case False
    then show ?thesis using keep by (simp add: item run_items_Cons)
  qed
qed

lemma run_dirs_mono: "dirs (disk s) \<subseteq> dirs (disk (snd (run_items items s)))"
proof (induction items arbitrary: s)
  case Nil
  show ?case by simp
next
  case (Cons item items)
  obtain m d where item: "item = (m, d)" by (cases item)
  note step = create_color_set_dirs(1)[where s=s and name=m and d=d]
  show ?case
  proof (cases "fst (create_color_set m d s) = Inr ()")
    case True
    from Cons.IH[of "print_line (confirmation m) (snd (create_color_set m d s))"]
    show ?thesis using True step by (auto simp: item run_items_Cons disk_print_line)
  next
    case False
    then show ?thesis using step by (simp add: item run_items_Cons)
  qed
qed

lemma run_files_frame:
  assumes "\<forall>item\<in>set items. contents_file_of (fst item) \<noteq> p"
  shows "files (disk (snd (run_items items s))) p = files (disk s) p"
  using assms
proof (induction items arbitrary: s)
  case Nil
  show ?case by simp
next
  case (Cons item items)
  obtain m d where item: "item = (m, d)" by (cases item)
  have "p \<noteq> contents_file_of m" using Cons.prems by (auto simp: item)
  note step = create_color_set_files[OF this, of d s]
  show ?case
  proof (cases "fst (create_color_set m d s) = Inr ()")
    case True
    have "\<forall>item\<in>set items. contents_file_of (fst item) \<noteq> p" using Cons.prems by simp
    from Cons.IH[OF this, of "print_line (confirmation m) (snd (create_color_set m d s))"]
    show ?thesis using True step by (simp add: item run_items_Cons disk_print_line)
  next
    case False
    then show ?thesis using step by (simp add: item run_items_Cons)
  qed
qed

lemma blocked_step:
  assumes "simple_name n" and "simple_name m"
  shows "blocked (disk (snd (create_color_set m d s))) n = blocked (disk s) n"
  using step_keeps_blocked[OF assms] by (simp add: blocked_def)

lemma run_ok_iff:
  assumes "\<forall>item\<in>set items. simple_name (fst item)" and "\<forall>item\<in>set items. valid_color_def (snd item)"
  shows "fst (run_items items s) = Inr () \<longleftrightarrow> (\<forall>item\<in>set items. \<not> blocked (disk s) (fst item))"
  using assms
proof (induction items arbitrary: s)
  case Nil
  show ?case by simp
next
  case (Cons item items)
  obtain m d where item: "item = (m, d)" by (cases item)
  have m: "simple_name m" "valid_color_def d" using Cons.prems by (simp_all add: item)
  have rest: "\<forall>item\<in>set items. simple_name (fst item)" "\<forall>item\<in>set items. valid_color_def (snd item)"
    using Cons.prems by simp_all
  let ?s1 = "print_line (confirmation m) (snd (create_color_set m d s))"
  have same: "\<forall>item\<in>set items. blocked (disk ?s1) (fst item) = blocked (disk s) (fst item)"
    using rest(1) m(1) by (simp add: disk_print_line blocked_step)
  show ?case
  proof (cases "fst (create_color_set m d s) = Inr ()")
    case True
    then have "\<not> blocked (disk s) m" using step_ok_iff[OF m(2)] by simp
    then show ?thesis
      using True Cons.IH[OF rest, of ?s1] same by (simp add: item run_items_Cons)
  next
    case False
    then have "blocked (disk s) m" using step_ok_iff[OF m(2)] by simp
    then show ?thesis using False by (auto simp: item run_items_Cons)
  qed
qed


lemma contents_file_inj:
  assumes "simple_name n" and "simple_name m" and "contents_file_of n = contents_file_of m"
  shows "n = m"
  using assms by (simp add: contents_file_of_folder simple_name_def folder_of_simple)

lemma filesystem_eqI:
  fixes a b :: filesystem
  assumes "dirs a = dirs b" and "files a = files b"
  shows "a = b"
  using assms by (cases a, cases b) simp

lemma with_dirs_idem: "with_dirs n (with_dirs n fsys) = with_dirs n fsys"
  by (rule filesystem_eqI) (auto simp: with_dirs_def)

lemma emitted_settled:
  assumes "set (ancestors (folder_of n)) \<subseteq> dirs fsys" and "files fsys (contents_file_of n) = Some data"
  shows "emitted n data fsys = fsys"
proof (rule filesystem_eqI)
  show "dirs (emitted n data fsys) = dirs fsys"
    using assms(1) by (auto simp: emitted_def with_dirs_def)
  show "files (emitted n data fsys) = files fsys"
    using assms(2) by (auto simp: emitted_def with_dirs_def fun_eq_iff)
qed

lemma step_fail_idem:
  assumes "valid_color_def d" and "simple_name m" and "fst (create_color_set m d s) \<noteq> Inr ()"
  shows "fst (create_color_set m d (snd (create_color_set m d s))) = fst (create_color_set m d s)"
    and "disk (snd (create_color_set m d (snd (create_color_set m d s)))) = disk (snd (create_color_set m d s))"
proof -
  show "fst (create_color_set m d (snd (create_color_set m d s))) = fst (create_color_set m d s)"
  proof (cases "file_in_the_way (disk s) m")
    case True
    then show ?thesis by (simp add: step_valid[OF assms(1)])
  next
    case False
    then have "dir_in_the_way (disk s) m"
      using assms(3) by (simp add: step_valid[OF assms(1)] split: if_splits)
    then show ?thesis using False
      by (simp add: step_valid[OF assms(1)] file_in_the_way_with_dirs
          dir_in_the_way_with_dirs[OF assms(2) assms(2)])
  qed
  show "disk (snd (create_color_set m d (snd (create_color_set m d s)))) = disk (snd (create_color_set m d s))"
  proof (cases "file_in_the_way (disk s) m")
    case True
    then show ?thesis by (simp add: step_valid[OF assms(1)])
  next
    case False
    then have "dir_in_the_way (disk s) m"
      using assms(3) by (simp add: step_valid[OF assms(1)] split: if_splits)
    then show ?thesis using False
      by (simp add: step_valid[OF assms(1)] file_in_the_way_with_dirs
          dir_in_the_way_with_dirs[OF assms(2) assms(2)] with_dirs_idem)
  qed
qed

lemma step_ok_dirs:
  assumes "fst (create_color_set m d s) = Inr ()"
  shows "dirs (disk (snd (create_color_set m d s))) = dirs (disk s) \<union> set (ancestors (folder_of m))"
  using assms
  by (auto simp: create_color_set_cases emitted_def with_dirs_def split: sum.splits if_splits)

lemma run_ok_dirs:
  assumes "fst (run_items items s) = Inr ()"
  shows "dirs (disk (snd (run_items items s)))
     = dirs (disk s) \<union> (\<Union>item\<in>set items. set (ancestors (folder_of (fst item))))"
  using assms
proof (induction items arbitrary: s)
  case Nil
  show ?case by simp
next
  case (Cons item items)
  obtain m d where item: "item = (m, d)" by (cases item)
  let ?s1 = "print_line (confirmation m) (snd (create_color_set m d s))"
  have ok: "fst (create_color_set m d s) = Inr ()"
    using Cons.prems by (auto simp: item run_items_Cons split: if_splits)
  then have "fst (run_items items ?s1) = Inr ()"
    using Cons.prems by (simp add: item run_items_Cons)
  from Cons.IH[OF this] show ?case
    using ok step_ok_dirs[OF ok] by (auto simp: item run_items_Cons disk_print_line)
qed

lemma run_ok_files:
  assumes "\<forall>item\<in>set items. simple_name (fst item)" and "\<forall>item\<in>set items. valid_color_def (snd item)"
    and "distinct (map fst items)" and "fst (run_items items s) = Inr ()" and "(n, d) \<in> set items"
  shows "files (disk (snd (run_items items s))) (contents_file_of n) = Some (payload d)"
  using assms
proof (induction items arbitrary: s)
  case Nil
  then show ?case by simp
next
  case (Cons item items)
  obtain m e where item: "item = (m, e)" by (cases item)
  let ?s1 = "print_line (confirmation m) (snd (create_color_set m e s))"
  have m: "simple_name m" "valid_color_def e" using Cons.prems(1,2) by (simp_all add: item)
  have rest: "\<forall>item\<in>set items. simple_name (fst item)" "\<forall>item\<in>set items. valid_color_def (snd item)"
    "distinct (map fst items)" "m \<notin> fst ` set items"
    using Cons.prems(1,2,3) by (simp_all add: item)
  have ok: "fst (create_color_set m e s) = Inr ()"
    using Cons.prems(4) by (auto simp: item run_items_Cons split: if_splits)
  then have ok1: "fst (run_items items ?s1) = Inr ()"
    using Cons.prems(4) by (simp add: item run_items_Cons)
  have run: "run_items (item # items) s = run_items items ?s1"
    using ok by (simp add: item run_items_Cons)
  show ?case
  proof (cases "(n, d) \<in> set items")
    case True
    from Cons.IH[OF rest(1,2,3) ok1 True] show ?thesis by (simp add: run)
  next
    case False
    then have nd: "n = m" "d = e" using Cons.prems(5) by (simp_all add: item)
    have "\<not> blocked (disk s) m" using ok step_ok_iff[OF m(2)] by simp
    then have "disk ?s1 = emitted m (payload e) (disk s)"
      by (simp add: disk_print_line step_ok_disk[OF m(2)])
    then have here: "files (disk ?s1) (contents_file_of m) = Some (payload e)"
      by (simp add: emitted_def)
    have "\<forall>item\<in>set items. contents_file_of (fst item) \<noteq> contents_file_of m"
      using rest(1,4) m(1) contents_file_inj by (metis imageI)
    from run_files_frame[OF this, of ?s1] show ?thesis
      using here by (simp add: run nd)
  qed
qed

lemma run_idem:
  assumes "\<forall>item\<in>set items. simple_name (fst item)" and "\<forall>item\<in>set items. valid_color_def (snd item)"
    and "distinct (map fst items)"
  shows "fst (run_items items (snd (run_items items s))) = fst (run_items items s)
     \<and> disk (snd (run_items items (snd (run_items items s)))) = disk (snd (run_items items s))"
  using assms
proof (induction items arbitrary: s)
  case Nil
  show ?case by simp
next
  case (Cons item items)
  obtain m d where item: "item = (m, d)" by (cases item)
  have m: "simple_name m" "valid_color_def d" using Cons.prems(1,2) by (simp_all add: item)
  have rest: "\<forall>item\<in>set items. simple_name (fst item)" "\<forall>item\<in>set items. valid_color_def (snd item)"
    "distinct (map fst items)" "m \<notin> fst ` set items"
    using Cons.prems by (simp_all add: item)
  show ?case
  proof (cases "fst (create_color_set m d s) = Inr ()")
    case False
    then have "run_items (item # items) s = create_color_set m d s"
      by (simp add: item run_items_Cons)
    moreover have "run_items (item # items) (snd (create_color_set m d s))
        = create_color_set m d (snd (create_color_set m d s))"
      using False step_fail_idem(1)[OF m(2) m(1) False] by (simp add: item run_items_Cons)
    ultimately show ?thesis using step_fail_idem[OF m(2) m(1) False] by simp
  next
    case True
    let ?s1 = "print_line (confirmation m) (snd (create_color_set m d s))"
    let ?s2 = "snd (run_items items ?s1)"
    have run: "run_items (item # items) s = run_items items ?s1"
      using True by (simp add: item run_items_Cons)
    have free: "\<not> blocked (disk s) m" using True step_ok_iff[OF m(2)] by simp
    then have d1: "disk ?s1 = emitted m (payload d) (disk s)"
      by (simp add: disk_print_line step_ok_disk[OF m(2)])
    have "blocked (disk ?s2) m = blocked (disk ?s1) m"
      using run_keeps_blocked[OF rest(1) m(1), of ?s1] by (simp add: blocked_def)
    also have "\<dots> = blocked (disk s) m"
      by (simp add: disk_print_line blocked_step[OF m(1) m(1)])
    finally have free2: "\<not> blocked (disk ?s2) m" using free by simp
    have "set (ancestors (folder_of m)) \<subseteq> dirs (disk ?s1)"
      by (simp add: d1 emitted_def with_dirs_def)
    then have a: "set (ancestors (folder_of m)) \<subseteq> dirs (disk ?s2)"
      using run_dirs_mono[of ?s1 items] by blast
    have "\<forall>item\<in>set items. contents_file_of (fst item) \<noteq> contents_file_of m"
      using rest(1,4) m(1) contents_file_inj by (metis imageI)
    from run_files_frame[OF this, of ?s1]
    have f: "files (disk ?s2) (contents_file_of m) = Some (payload d)"
      by (simp add: d1 emitted_def)
    have again: "fst (create_color_set m d ?s2) = Inr ()"
      using free2 step_ok_iff[OF m(2)] by simp
    have "disk (snd (create_color_set m d ?s2)) = disk ?s2"
      by (simp add: step_ok_disk[OF m(2) free2] emitted_settled[OF a f])
    then have "disk (print_line (confirmation m) (snd (create_color_set m d ?s2))) = disk ?s2"
      by (simp add: disk_print_line)
    from run_disk_det[OF this, of items]
    have "fst (run_items (item # items) ?s2) = fst (run_items items ?s2)"
      "disk (snd (run_items (item # items) ?s2)) = disk (snd (run_items items ?s2))"
      using again by (simp_all add: item run_items_Cons)
    then show ?thesis using Cons.IH[OF rest(1,2,3), of ?s1] by (simp add: run)
  qed
qed

lemma colors_well_formed: "well_formed_table colors"
  by code_simp

lemma well_formed_tableD:
  assumes "well_formed_table items"
  shows "\<forall>item\<in>set items. simple_name (fst item)" and "\<forall>item\<in>set items. valid_color_def (snd item)"
    and "distinct (map fst items)"
  using assms by (auto simp: well_formed_table_def list_all_iff)

text \<open>
  C3: two runs in a row over the fixed table. The second run ends as the first one did
  and leaves the disk exactly as the first run left it; when the first run succeeds, the
  descriptor file of every entry holds, after the first run and after the second, the
  same bytes: the serialised descriptor of the entry.
\<close>

theorem generate_idempotent:
  assumes "table s = colors"
  shows "fst (generate (snd (generate s))) = fst (generate s)
     \<and> disk (snd (generate (snd (generate s)))) = disk (snd (generate s))
     \<and> (fst (generate s) = Inr () \<longrightarrow>
          (\<forall>item\<in>set colors.
              files (disk (snd (generate s))) (contents_file_of (fst item)) = Some (payload (snd item))
            \<and> files (disk (snd (generate (snd (generate s))))) (contents_file_of (fst item))
                = Some (payload (snd item))))"
proof -
  note wf = well_formed_tableD[OF colors_well_formed]
  have t: "table (snd (generate s)) = colors"
    using assms by (simp add: generate_def run_items_table)
  have g: "generate s = run_items colors s"
    "generate (snd (run_items colors s)) = run_items colors (snd (run_items colors s))"
    using assms t by (simp_all add: generate_def)
  note idem = run_idem[OF wf, of s]
  have "files (disk (snd (run_items colors s))) (contents_file_of (fst item)) = Some (payload (snd item))"
    if "fst (run_items colors s) = Inr ()" "item \<in> set colors" for item
    using run_ok_files[OF wf that(1), of "fst item" "snd item"] that(2) by simp
  then show ?thesis using idem unfolding g by simp
qed

theorem generate_idempotent_witness:
  "fst (generate fresh_state) = Inr ()
   \<and> disk (snd (generate (snd (generate fresh_state)))) = disk (snd (generate fresh_state))
   \<and> files (disk (snd (generate (snd (generate fresh_state))))) (contents_file_of ''Surface'')
       = Some (payload [''light'' \<mapsto> PStr ''#FFFFFF'', ''dark'' \<mapsto> PStr ''#18181B''])"
proof -
  have t: "table fresh_state = colors" by (simp add: fresh_state_def)
  have "list_all (\<lambda>item. \<not> blocked (disk fresh_state) (fst item)) colors" by code_simp
  then have ok: "fst (generate fresh_state) = Inr ()"
    using run_ok_iff[OF well_formed_tableD(1,2)[OF colors_well_formed], of fresh_state]
    by (simp add: generate_def t list_all_iff)
  have i: "(''Surface'', [''light'' \<mapsto> PStr ''#FFFFFF'', ''dark'' \<mapsto> PStr ''#18181B'']) \<in> set colors"
    by (simp add: colors_def)
  from generate_idempotent[OF t] ok i show ?thesis by fastforce
qed

lemma colors_run_ok:
  assumes "table s = colors" and "list_all (\<lambda>item. \<not> blocked (disk s) (fst item)) colors"
  shows "fst (generate s) = Inr ()"
  using run_ok_iff[OF well_formed_tableD(1,2)[OF colors_well_formed], of s] assms
  by (simp add: generate_def list_all_iff)

lemma fresh_state_ok: "fst (generate fresh_state) = Inr ()"
proof (rule colors_run_ok)
  show "table fresh_state = colors" by (simp add: fresh_state_def)
  show "list_all (\<lambda>item. \<not> blocked (disk fresh_state) (fst item)) colors" by code_simp
qed

lemma crowded_state_ok: "fst (generate crowded_state) = Inr ()"
proof (rule colors_run_ok)
  show "table crowded_state = colors" by (simp add: crowded_state_def)
  show "list_all (\<lambda>item. \<not> blocked (disk crowded_state) (fst item)) colors" by code_simp
qed

lemma other_file_kept:
  assumes "x \<noteq> ''Contents.json''"
  shows "files (disk (snd (run_items items s))) (folder_of name @ [x]) = files (disk s) (folder_of name @ [x])"
proof (rule run_files_frame)
  show "\<forall>item\<in>set items. contents_file_of (fst item) \<noteq> folder_of name @ [x]"
    using assms by (simp add: contents_file_of_folder)
qed

lemma colors_layout:
  assumes "table s = colors" and "fst (generate s) = Inr ()" and "(name, d) \<in> set colors"
  shows "folder_of name \<in> dirs (disk (snd (generate s)))"
    and "files (disk (snd (generate s))) (folder_of name @ [''Contents.json'']) = Some (payload d)"
proof -
  note wf = well_formed_tableD[OF colors_well_formed]
  have g: "generate s = run_items colors s" using assms(1) by (simp add: generate_def)
  have ok: "fst (run_items colors s) = Inr ()" using assms(2) by (simp add: g)
  have "folder_of name \<in> set (ancestors (folder_of name))"
    using folder_of_nonempty by (rule self_in_ancestors)
  then show "folder_of name \<in> dirs (disk (snd (generate s)))"
    unfolding g run_ok_dirs[OF ok] using assms(3) by force
  show "files (disk (snd (generate s))) (folder_of name @ [''Contents.json'']) = Some (payload d)"
    using run_ok_files[OF wf ok assms(3)] by (simp add: g contents_file_of_folder)
qed

text \<open>
  C7 says that after a successful full run the directory of every entry contains exactly
  one file. The script keeps what a directory already holds: when the directory of the
  first color exists before the run and holds a file \<^verbatim>\<open>old.txt\<close>, the run succeeds
  and the directory holds two files afterwards.
\<close>

theorem one_file_counterexample:
  "fst (generate crowded_state) = Inr ()
   \<and> files (disk (snd (generate crowded_state))) (folder_of ''BrandPrimary'' @ [''old.txt'']) = Some ''old''
   \<and> files (disk (snd (generate crowded_state))) (folder_of ''BrandPrimary'' @ [''Contents.json''])
       = Some (payload [''light'' \<mapsto> PStr ''#7A4A2A'', ''dark'' \<mapsto> PStr ''#7A4A2A''])"
proof -
  have t: "table crowded_state = colors" by (simp add: crowded_state_def)
  have i: "(''BrandPrimary'', [''light'' \<mapsto> PStr ''#7A4A2A'', ''dark'' \<mapsto> PStr ''#7A4A2A'']) \<in> set colors"
    by (simp add: colors_def)
  have "files (disk (snd (generate crowded_state))) (folder_of ''BrandPrimary'' @ [''old.txt''])
      = files (disk crowded_state) (folder_of ''BrandPrimary'' @ [''old.txt''])"
    unfolding generate_def by (rule other_file_kept) simp
  also have "\<dots> = Some ''old''" by (simp add: crowded_state_def)
  finally show ?thesis
    using crowded_state_ok colors_layout(2)[OF t crowded_state_ok i] by simp
qed

text \<open>
  C7, as the script has it: after a successful full run over the fixed table, for every
  entry the directory \<^verbatim>\<open><name>.colorset\<close> directly under the output root exists, its
  file \<^verbatim>\<open>Contents.json\<close> holds the serialised descriptor of the entry, whose variant
  list has exactly two entries, and every other file name in that directory holds what it
  held before the run.
\<close>

theorem full_run_layout:
  assumes "table s = colors" and "fst (generate s) = Inr ()" and "(name, d) \<in> set colors"
  shows "folder_of name = components assets_path @ [name @ ''.colorset'']
     \<and> folder_of name \<in> dirs (disk (snd (generate s)))
     \<and> files (disk (snd (generate s))) (folder_of name @ [''Contents.json'']) = Some (payload d)
     \<and> (\<exists>contents. build_contents d = Inr contents \<and> payload d = json_dump_indent2 contents
           \<and> length (variants contents) = 2)
     \<and> (\<forall>x. x \<noteq> ''Contents.json'' \<longrightarrow>
           files (disk (snd (generate s))) (folder_of name @ [x]) = files (disk s) (folder_of name @ [x]))"
proof -
  note wf = well_formed_tableD[OF colors_well_formed]
  have "simple_name name" "valid_color_def d" using wf(1,2) assms(3) by force+
  then have "folder_of name = components assets_path @ [name @ ''.colorset'']"
    "\<exists>contents. build_contents d = Inr contents \<and> payload d = json_dump_indent2 contents
           \<and> length (variants contents) = 2"
    using valid_payload[of d] by (auto simp: simple_name_def folder_of_simple)
  moreover have "\<forall>x. x \<noteq> ''Contents.json'' \<longrightarrow>
           files (disk (snd (generate s))) (folder_of name @ [x]) = files (disk s) (folder_of name @ [x])"
    unfolding generate_def using other_file_kept by blast
  ultimately show ?thesis using colors_layout[OF assms] by blast
qed

theorem full_run_layout_witness:
  "folder_of ''Surface'' \<in> dirs (disk (snd (generate fresh_state)))
   \<and> files (disk (snd (generate fresh_state))) (folder_of ''Surface'' @ [''Contents.json''])
       = Some (payload [''light'' \<mapsto> PStr ''#FFFFFF'', ''dark'' \<mapsto> PStr ''#18181B''])
   \<and> files (disk (snd (generate fresh_state))) (folder_of ''Surface'' @ [''notes.txt'']) = None"
proof -
  have t: "table fresh_state = colors" by (simp add: fresh_state_def)
  have i: "(''Surface'', [''light'' \<mapsto> PStr ''#FFFFFF'', ''dark'' \<mapsto> PStr ''#18181B'']) \<in> set colors"
    by (simp add: colors_def)
  have n: "''notes.txt'' \<noteq> ''Contents.json''" by simp
  have e: "files (disk fresh_state) (folder_of ''Surface'' @ [''notes.txt'']) = None"
    by (simp add: fresh_state_def)
  from full_run_layout[OF t fresh_state_ok i] n e show ?thesis by fastforce
qed







end
